theory Spec2Isabelle
  imports Main
begin

section \<open>The \<open>user_integrations\<close> table\<close>

text \<open>
  The table of the migration \<open>create_user_integrations\<close>, with the three token columns
  added by the later \<open>ALTER TABLE\<close>. A \<open>UUID\<close> and a \<open>TEXT\<close> are strings, a
  \<open>TIMESTAMPTZ\<close> is an integer number of milliseconds since the epoch, a nullable
  column is an \<open>option\<close>, the \<open>JSONB\<close> array of scopes is a list of strings.
  The column \<open>id\<close> is the field \<open>row_id\<close>. The table is the list of its rows;
  an \<open>INSERT\<close> appends.
\<close>

type_synonym uuid = string
type_synonym timestamptz = int

record user_integrations =
  row_id :: uuid
  user_id :: uuid
  provider :: string
  provider_user_id :: "string option"
  status :: string
  scopes :: "string list option"
  provider_access_token_encrypted :: "string option"
  provider_refresh_token_encrypted :: "string option"
  token_expires_at :: "timestamptz option"
  created_at :: timestamptz
  updated_at :: timestamptz

type_synonym table = "user_integrations list"

text \<open>\<open>UNIQUE (user_id, provider)\<close>.\<close>

definition unique_user_provider :: "table \<Rightarrow> bool" where
  "unique_user_provider t = distinct (map (\<lambda>r. (user_id r, provider r)) t)"

text \<open>
  What a request finds around it. \<open>session_user\<close> is the user the request's session
  identifies: \<open>auth.uid()\<close> inside the database and the \<open>user\<close> that
  \<open>supabase.auth.getUser()\<close> answers with; \<open>getUser_error\<close> is the
  \<open>userError\<close> of that answer. \<open>date_now\<close> is the application's
  \<open>Date.now()\<close>, a reading of the present time; \<open>db_now\<close> is the
  database's \<open>NOW()\<close>,
  \<open>gen_random_uuid\<close> the default of the \<open>id\<close> column. \<open>db_failure\<close> is
  a request to the database that fails before the statement runs (transport, outage),
  with its message.
\<close>

record env =
  session_user :: "uuid option"
  getUser_error :: "string option"
  date_now :: int
  db_now :: timestamptz
  gen_random_uuid :: uuid
  db_failure :: "string option"

subsection \<open>Row-level security and the timestamp trigger\<close>

text \<open>
  The five policy expressions, all \<open>auth.uid() = user_id\<close>; with \<open>auth.uid()\<close>
  null the comparison is not true.
\<close>

definition policy_select_using :: "uuid option \<Rightarrow> user_integrations \<Rightarrow> bool" where
  "policy_select_using auth_uid r = (auth_uid = Some (user_id r))"

definition policy_insert_check :: "uuid option \<Rightarrow> user_integrations \<Rightarrow> bool" where
  "policy_insert_check auth_uid r = (auth_uid = Some (user_id r))"

definition policy_update_using :: "uuid option \<Rightarrow> user_integrations \<Rightarrow> bool" where
  "policy_update_using auth_uid r = (auth_uid = Some (user_id r))"

definition policy_update_check :: "uuid option \<Rightarrow> user_integrations \<Rightarrow> bool" where
  "policy_update_check auth_uid r = (auth_uid = Some (user_id r))"

definition policy_delete_using :: "uuid option \<Rightarrow> user_integrations \<Rightarrow> bool" where
  "policy_delete_using auth_uid r = (auth_uid = Some (user_id r))"

definition rls_violation :: string where
  "rls_violation = ''new row violates row-level security policy for table user_integrations''"

text \<open>\<open>BEFORE UPDATE ... FOR EACH ROW\<close>: \<open>NEW.updated_at = NOW()\<close>.\<close>

definition trigger_set_timestamp :: "env \<Rightarrow> user_integrations \<Rightarrow> user_integrations" where
  "trigger_set_timestamp e new = new\<lparr>updated_at := db_now e\<rparr>"

subsection \<open>The statements\<close>

text \<open>
  \<open>UPDATE user_integrations SET ... WHERE ...\<close> as the session runs it: the rows it
  touches are those the \<open>SELECT\<close> and \<open>UPDATE\<close> policies let it see and the
  \<open>WHERE\<close> clause keeps; the trigger runs on each new row; a new row that fails
  the \<open>WITH CHECK\<close> aborts the statement.
\<close>

definition sql_update ::
  "env \<Rightarrow> (user_integrations \<Rightarrow> user_integrations) \<Rightarrow> (user_integrations \<Rightarrow> bool) \<Rightarrow>
     table \<Rightarrow> string + table" where
  "sql_update e set_clause where_clause t =
     (let target = (\<lambda>r. policy_select_using (session_user e) r \<and>
                         policy_update_using (session_user e) r \<and> where_clause r);
          new = (\<lambda>r. trigger_set_timestamp e (set_clause r))
      in if list_all (policy_update_check (session_user e)) (map new (filter target t))
         then Inr (map (\<lambda>r. if target r then new r else r) t)
         else Inl rls_violation)"

text \<open>\<open>SELECT ... FROM user_integrations WHERE ...\<close> as the session runs it.\<close>

definition sql_select :: "env \<Rightarrow> (user_integrations \<Rightarrow> bool) \<Rightarrow> table \<Rightarrow> user_integrations list" where
  "sql_select e where_clause t =
     filter (\<lambda>r. policy_select_using (session_user e) r \<and> where_clause r) t"

text \<open>
  The function \<open>upsert_google_user_integration\<close>, run with the permissions of its
  caller. \<open>excluded\<close> is the row proposed for insertion; \<open>created_at\<close> and
  \<open>id\<close> take their defaults. The arbiter of \<open>ON CONFLICT\<close> is the unique
  constraint on \<open>(user_id, provider)\<close>. The result is the \<open>RETURNING *\<close> rows
  and the new table.
\<close>

definition excluded_row ::
  "env \<Rightarrow> uuid \<Rightarrow> string option \<Rightarrow> string list option \<Rightarrow> string option \<Rightarrow> string option \<Rightarrow>
     timestamptz option \<Rightarrow> user_integrations" where
  "excluded_row e p_user_id p_provider_user_id p_scopes p_encrypted_access_token
       p_encrypted_refresh_token p_token_expires_at =
     \<lparr>row_id = gen_random_uuid e,
      user_id = p_user_id,
      provider = ''google'',
      provider_user_id = p_provider_user_id,
      status = ''connected'',
      scopes = p_scopes,
      provider_access_token_encrypted = p_encrypted_access_token,
      provider_refresh_token_encrypted = p_encrypted_refresh_token,
      token_expires_at = p_token_expires_at,
      created_at = db_now e,
      updated_at = db_now e\<rparr>"

definition on_conflict :: "user_integrations \<Rightarrow> user_integrations \<Rightarrow> bool" where
  "on_conflict excluded r = (user_id r = user_id excluded \<and> provider r = provider excluded)"

definition do_update_set :: "env \<Rightarrow> user_integrations \<Rightarrow> user_integrations \<Rightarrow> user_integrations" where
  "do_update_set e excluded r =
     r\<lparr>provider_user_id := provider_user_id excluded,
       status := status excluded,
       scopes := scopes excluded,
       provider_access_token_encrypted := provider_access_token_encrypted excluded,
       provider_refresh_token_encrypted := provider_refresh_token_encrypted excluded,
       token_expires_at := token_expires_at excluded,
       updated_at := db_now e\<rparr>"

definition upsert_google_user_integration ::
  "env \<Rightarrow> uuid \<Rightarrow> string option \<Rightarrow> string list option \<Rightarrow> string option \<Rightarrow> string option \<Rightarrow>
     timestamptz option \<Rightarrow> table \<Rightarrow> string + (user_integrations list \<times> table)" where
  "upsert_google_user_integration e p_user_id p_provider_user_id p_scopes
       p_encrypted_access_token p_encrypted_refresh_token p_token_expires_at t =
     (let excluded = excluded_row e p_user_id p_provider_user_id p_scopes
                       p_encrypted_access_token p_encrypted_refresh_token p_token_expires_at;
          new = (\<lambda>r. trigger_set_timestamp e (do_update_set e excluded r))
      in if \<not> policy_insert_check (session_user e) excluded then Inl rls_violation
         else if list_ex (on_conflict excluded) t then
           (if list_all (\<lambda>r. policy_update_using (session_user e) r \<and>
                              policy_update_check (session_user e) (new r))
                 (filter (on_conflict excluded) t)
            then Inr (map new (filter (on_conflict excluded) t),
                      map (\<lambda>r. if on_conflict excluded r then new r else r) t)
            else Inl rls_violation)
         else Inr ([excluded], t @ [excluded]))"

text \<open>\<open>.eq('user_id', u).eq('provider', 'google')\<close>, the filter of every query of the application.\<close>

definition eq_user_google :: "uuid \<Rightarrow> user_integrations \<Rightarrow> bool" where
  "eq_user_google u r = (user_id r = u \<and> provider r = ''google'')"

text \<open>A request of the client library: it fails with \<open>db_failure\<close>, or the statement runs.\<close>

definition request_db :: "env \<Rightarrow> (table \<Rightarrow> string + 'a) \<Rightarrow> table \<Rightarrow> string + 'a" where
  "request_db e statement t =
     (case db_failure e of Some message \<Rightarrow> Inl message | None \<Rightarrow> statement t)"

section \<open>The server actions\<close>

text \<open>
  \<open>GoogleIntegrationData\<close>. \<open>None\<close> is JavaScript's \<open>null\<close> (for
  \<open>expires_in\<close> also an absent field: both are falsy). \<open>expires_in\<close> is a whole
  number of seconds. The fields \<open>scopes\<close> and \<open>provider_user_id\<close> are
  \<open>data_scopes\<close> and \<open>data_provider_user_id\<close> here, the columns having the
  plain names.
\<close>

record GoogleIntegrationData =
  provider_access_token :: "string option"
  provider_refresh_token :: "string option"
  expires_in :: "int option"
  data_scopes :: "string list"
  data_provider_user_id :: string

text \<open>
  What an action gives back: the object \<open>{ error }\<close>, the object
  \<open>{ success: true, ... }\<close>, or an exception that leaves the action. What the
  code writes to the console is left out.
\<close>

datatype 'a action_result = Error string | Success 'a | Throws string

text \<open>The requests an operation sends out, in order.\<close>

datatype request =
  Auth_getUser | Rpc_upsert_google_user_integration | Update_user_integrations |
  Select_user_integrations | RevalidatePath string

record 'a outcome =
  returned :: 'a
  table_after :: table
  requests :: "request list"

text \<open>\<open>userError || !user\<close> fails the check; otherwise the user is the session's.\<close>

definition getUser :: "env \<Rightarrow> uuid option" where
  "getUser e = (case getUser_error e of Some _ \<Rightarrow> None | None \<Rightarrow> session_user e)"

text \<open>
  \<open>new Date(ms)\<close> is an invalid date when \<open>ms\<close> is beyond 8.64e15 milliseconds
  either side of the epoch, and \<open>toISOString()\<close> of an invalid date throws a
  \<open>RangeError\<close>.
\<close>

definition valid_time_value :: "int \<Rightarrow> bool" where
  "valid_time_value ms = (\<bar>ms\<bar> \<le> 8640000000000000)"

text \<open>
  The expiry travels to the database as the text \<open>toISOString()\<close> gives. That
  text has a four-digit year for the years 0000 to 9999 and a signed six-digit year
  (\<open>+010000-...\<close>) outside them. The \<open>TIMESTAMPTZ\<close> parameter reads the
  first form, for the years 0001 to 9999, and refuses the rest: the call then fails
  before the function runs and nothing is written. The bounds are the first
  millisecond of the year 0001 and of the year 10000. The wording of the database's
  message is not modelled beyond its first words.
\<close>

definition timestamptz_in :: "int \<Rightarrow> bool" where
  "timestamptz_in ms = (- 62135596800000 \<le> ms \<and> ms < 253402300800000)"

definition timestamptz_refused :: string where
  "timestamptz_refused = ''invalid input syntax for type timestamp with time zone''"

text \<open>\<open>if (expires_in) tokenExpiresAt = new Date(Date.now() + expires_in * 1000)\<close>.\<close>

definition tokenExpiresAt :: "env \<Rightarrow> GoogleIntegrationData \<Rightarrow> int option" where
  "tokenExpiresAt e d =
     (case expires_in d of
        None \<Rightarrow> None
      | Some s \<Rightarrow> if s = 0 then None else Some (date_now e + s * 1000))"

definition upsertGoogleIntegration ::
  "env \<Rightarrow> GoogleIntegrationData \<Rightarrow> table \<Rightarrow> user_integrations option action_result outcome" where
  "upsertGoogleIntegration e d t =
     (case getUser e of
        None \<Rightarrow>
          \<lparr>returned = Error ''User not authenticated'', table_after = t,
           requests = [Auth_getUser]\<rparr>
      | Some user \<Rightarrow>
          let directAccessToken = provider_access_token d;
              directRefreshToken = provider_refresh_token d;
              expires = tokenExpiresAt e d
          in if (case expires of Some ms \<Rightarrow> \<not> valid_time_value ms | None \<Rightarrow> False) then
               \<lparr>returned = Throws ''RangeError: Invalid time value'', table_after = t,
                requests = [Auth_getUser]\<rparr>
             else
               (case request_db e
                       (\<lambda>t. if (case expires of Some ms \<Rightarrow> \<not> timestamptz_in ms
                                                | None \<Rightarrow> False)
                            then Inl timestamptz_refused
                            else upsert_google_user_integration e user
                                   (Some (data_provider_user_id d)) (Some (data_scopes d))
                                   directAccessToken directRefreshToken expires t) t of
                  Inl message \<Rightarrow>
                    \<lparr>returned = Error message, table_after = t,
                     requests = [Auth_getUser, Rpc_upsert_google_user_integration]\<rparr>
                | Inr (rpcResult, t') \<Rightarrow>
                    \<lparr>returned = Success (case rpcResult of [] \<Rightarrow> None | r # _ \<Rightarrow> Some r),
                     table_after = t',
                     requests = [Auth_getUser, Rpc_upsert_google_user_integration,
                                 RevalidatePath ''/settings/integrations'']\<rparr>))"

text \<open>
  \<open>disconnectGoogleIntegration\<close>: one \<open>UPDATE\<close> of the rows with the user's id
  and provider \<open>google\<close>; the \<open>updated_at\<close> it sends is the application's clock.
\<close>

definition disconnect_set :: "env \<Rightarrow> user_integrations \<Rightarrow> user_integrations" where
  "disconnect_set e r =
     r\<lparr>status := ''disconnected'',
       scopes := None,
       provider_access_token_encrypted := None,
       provider_refresh_token_encrypted := None,
       token_expires_at := None,
       provider_user_id := None,
       updated_at := date_now e\<rparr>"

definition disconnectGoogleIntegration :: "env \<Rightarrow> table \<Rightarrow> unit action_result outcome" where
  "disconnectGoogleIntegration e t =
     (case getUser e of
        None \<Rightarrow>
          \<lparr>returned = Error ''User not authenticated'', table_after = t,
           requests = [Auth_getUser]\<rparr>
      | Some user \<Rightarrow>
          (case request_db e
                  (sql_update e (disconnect_set e) (eq_user_google user)) t of
             Inl message \<Rightarrow>
               \<lparr>returned = Error message, table_after = t,
                requests = [Auth_getUser, Update_user_integrations]\<rparr>
           | Inr t' \<Rightarrow>
               \<lparr>returned = Success (), table_after = t',
                requests = [Auth_getUser, Update_user_integrations,
                            RevalidatePath ''/settings/integrations'']\<rparr>))"

section \<open>The integrations page\<close>

text \<open>
  \<open>IntegrationStatus\<close>, the state \<open>googleIntegration\<close> of the page (its fields
  \<open>provider\<close> and \<open>scopes\<close> are \<open>status_provider\<close> and
  \<open>status_scopes\<close> here).
\<close>

record IntegrationStatus =
  status_provider :: string
  connected :: bool
  status_scopes :: "string list option"
  lastChecked :: "int option"

text \<open>
  \<open>.maybeSingle()\<close>: no row is \<open>null\<close>, one row is that row, more rows are an
  error.
\<close>

definition maybeSingle :: "'a list \<Rightarrow> string + 'a option" where
  "maybeSingle rows =
     (case rows of
        [] \<Rightarrow> Inr None
      | [r] \<Rightarrow> Inr (Some r)
      | _ \<Rightarrow> Inl ''JSON object requested, multiple (or no) rows returned'')"

text \<open>
  \<open>fetchIntegrationStatus\<close>. It returns nothing; what it does is set the page's
  state. \<open>returned\<close> is the value it gives \<open>setGoogleIntegration\<close> and the
  message it gives \<open>setActionError\<close>, when it calls that. The loading flag it
  clears at the end is left out. The query runs in the browser's session, which need
  not be the \<open>user\<close> the page passes in.
\<close>

definition fetchIntegrationStatus ::
  "env \<Rightarrow> uuid option \<Rightarrow> table \<Rightarrow> (IntegrationStatus option \<times> string option) outcome" where
  "fetchIntegrationStatus e user t =
     (case user of
        None \<Rightarrow> \<lparr>returned = (None, None), table_after = t, requests = []\<rparr>
      | Some u \<Rightarrow>
          (case request_db e
                  (\<lambda>t. maybeSingle (map (\<lambda>r. (status r, scopes r))
                                        (sql_select e (eq_user_google u) t))) t of
             Inl message \<Rightarrow>
               \<lparr>returned =
                  (Some \<lparr>status_provider = ''google'', connected = False,
                         status_scopes = None, lastChecked = None\<rparr>,
                   Some (''Failed to load integration status: '' @ message)),
                table_after = t, requests = [Select_user_integrations]\<rparr>
           | Inr (Some (row_status, row_scopes)) \<Rightarrow>
               \<lparr>returned =
                  (Some \<lparr>status_provider = ''google'',
                         connected = (row_status = ''connected''),
                         status_scopes = row_scopes, lastChecked = Some (date_now e)\<rparr>,
                   None),
                table_after = t, requests = [Select_user_integrations]\<rparr>
           | Inr None \<Rightarrow>
               \<lparr>returned =
                  (Some \<lparr>status_provider = ''google'', connected = False,
                         status_scopes = None, lastChecked = Some (date_now e)\<rparr>,
                   None),
                table_after = t, requests = [Select_user_integrations]\<rparr>))"

section \<open>Sequences of writes\<close>

text \<open>
  The two writers of the application, each call with the environment it runs in, one
  after the other.
\<close>

datatype action = Connect GoogleIntegrationData | Disconnect

fun perform :: "env \<times> action \<Rightarrow> table \<Rightarrow> table" where
  "perform (e, Connect d) t = table_after (upsertGoogleIntegration e d t)"
| "perform (e, Disconnect) t = table_after (disconnectGoogleIntegration e t)"

fun run :: "(env \<times> action) list \<Rightarrow> table \<Rightarrow> table" where
  "run [] t = t"
| "run (c # cs) t = run cs (perform c t)"

text \<open>
  The conditions under which a connect goes through: a signed-in user, a database
  that answers, and an expiry, when there is one, that is a valid date and that the
  database reads.
\<close>

definition connect_goes_through :: "env \<Rightarrow> GoogleIntegrationData \<Rightarrow> bool" where
  "connect_goes_through e d =
     (getUser e \<noteq> None \<and> db_failure e = None \<and>
      (case tokenExpiresAt e d of
         Some ms \<Rightarrow> valid_time_value ms \<and> timestamptz_in ms
       | None \<Rightarrow> True))"

text \<open>The row a connect of user \<open>u\<close> proposes to the database function.\<close>

definition proposed :: "env \<Rightarrow> uuid \<Rightarrow> GoogleIntegrationData \<Rightarrow> user_integrations" where
  "proposed e u d =
     excluded_row e u (Some (data_provider_user_id d)) (Some (data_scopes d))
       (provider_access_token d) (provider_refresh_token d) (tokenExpiresAt e d)"

text \<open>The record holds what the connect \<open>d\<close>, made in \<open>e\<close>, asked to store.\<close>

definition holds_call :: "env \<Rightarrow> GoogleIntegrationData \<Rightarrow> user_integrations \<Rightarrow> bool" where
  "holds_call e d r =
     (status r = ''connected'' \<and>
      provider_user_id r = Some (data_provider_user_id d) \<and>
      scopes r = Some (data_scopes d) \<and>
      provider_access_token_encrypted r = provider_access_token d \<and>
      provider_refresh_token_encrypted r = provider_refresh_token d \<and>
      token_expires_at r = tokenExpiresAt e d)"

text \<open>
  A record is connected, or it is disconnected with its scopes, tokens and expiry null.
\<close>

definition connected_or_cleared :: "user_integrations \<Rightarrow> bool" where
  "connected_or_cleared r =
     (status r = ''connected'' \<or>
      (status r = ''disconnected'' \<and> scopes r = None \<and>
       provider_access_token_encrypted r = None \<and>
       provider_refresh_token_encrypted r = None \<and> token_expires_at r = None))"

text \<open>
  The database clock does not go back over a sequence of calls: the readings of
  \<open>NOW()\<close> are in order, and no record of the starting table is stamped later
  than a reading.
\<close>

definition clock_moves_on :: "table \<Rightarrow> (env \<times> action) list \<Rightarrow> bool" where
  "clock_moves_on t cs =
     (sorted (map (\<lambda>c. db_now (fst c)) cs) \<and>
      list_all (\<lambda>r. list_all (\<lambda>c. updated_at r \<le> db_now (fst c)) cs) t)"

text \<open>Two states of one record: the same \<open>id\<close>, user and provider.\<close>

definition same_record :: "user_integrations \<Rightarrow> user_integrations \<Rightarrow> bool" where
  "same_record r r' = (row_id r' = row_id r \<and> user_id r' = user_id r \<and> provider r' = provider r)"

subsection \<open>Concrete requests\<close>

text \<open>
  A request of a signed-in user \<open>u\<close> at clock reading \<open>now\<close> (both clocks), and
  consent data with the given tokens.
\<close>

definition signed_in :: "uuid \<Rightarrow> int \<Rightarrow> env" where
  "signed_in u now =
     \<lparr>session_user = Some u, getUser_error = None, date_now = now, db_now = now,
      gen_random_uuid = ''row-of-'' @ u, db_failure = None\<rparr>"

definition signed_out :: "int \<Rightarrow> env" where
  "signed_out now =
     \<lparr>session_user = None, getUser_error = Some ''Auth session missing!'', date_now = now,
      db_now = now, gen_random_uuid = ''row-of-nobody'', db_failure = None\<rparr>"

definition consent :: "string option \<Rightarrow> string option \<Rightarrow> GoogleIntegrationData" where
  "consent access refresh =
     \<lparr>provider_access_token = access, provider_refresh_token = refresh,
      expires_in = Some 3600, data_scopes = [''openid'', ''email''],
      data_provider_user_id = ''google-7''\<rparr>"

section \<open>Facts about the statements\<close>

lemmas eval_defs =
  upsertGoogleIntegration_def disconnectGoogleIntegration_def fetchIntegrationStatus_def
  getUser_def tokenExpiresAt_def valid_time_value_def timestamptz_in_def
  request_db_def upsert_google_user_integration_def excluded_row_def on_conflict_def
  do_update_set_def trigger_set_timestamp_def sql_update_def sql_select_def disconnect_set_def
  eq_user_google_def policy_select_using_def policy_insert_check_def policy_update_using_def
  policy_update_check_def policy_delete_using_def maybeSingle_def timestamptz_refused_def
  connect_goes_through_def unique_user_provider_def proposed_def
  signed_in_def signed_out_def consent_def Let_def

lemma getUser_session: "getUser e = Some u \<Longrightarrow> session_user e = Some u"
  by (simp add: getUser_def split: option.splits)

lemma on_conflict_excluded:
  "on_conflict (excluded_row e u pu sc a rf x) = eq_user_google u"
  by (rule ext) (simp add: on_conflict_def excluded_row_def eq_user_google_def)

text \<open>Called for the session's own user, the database function passes every policy.\<close>

lemma upsert_sql_own:
  assumes "session_user e = Some u"
  shows "upsert_google_user_integration e u pu sc a rf x t =
     (let ex = excluded_row e u pu sc a rf x;
          new = (\<lambda>r. trigger_set_timestamp e (do_update_set e ex r))
      in if list_ex (eq_user_google u) t
         then Inr (map new (filter (eq_user_google u) t),
                   map (\<lambda>r. if eq_user_google u r then new r else r) t)
         else Inr ([ex], t @ [ex]))"
proof -
  have ins: "policy_insert_check (session_user e) (excluded_row e u pu sc a rf x)"
    using assms by (simp add: policy_insert_check_def excluded_row_def)
  have upd: "list_all (\<lambda>r. policy_update_using (session_user e) r \<and>
                 policy_update_check (session_user e)
                   (trigger_set_timestamp e (do_update_set e (excluded_row e u pu sc a rf x) r)))
               (filter (eq_user_google u) t)"
    using assms
    by (simp add: list_all_iff policy_update_using_def policy_update_check_def
        trigger_set_timestamp_def do_update_set_def eq_user_google_def)
  show ?thesis
    using ins upd
    by (simp add: upsert_google_user_integration_def on_conflict_excluded Let_def)
qed

lemma upsert_table_through:
  assumes "connect_goes_through e d" and "getUser e = Some u"
  shows "table_after (upsertGoogleIntegration e d t) =
     (if list_ex (eq_user_google u) t
      then map (\<lambda>r. if eq_user_google u r
                     then trigger_set_timestamp e (do_update_set e (proposed e u d) r) else r) t
      else t @ [proposed e u d])"
  using assms upsert_sql_own [OF getUser_session [OF assms(2)]]
  by (auto simp add: upsertGoogleIntegration_def connect_goes_through_def request_db_def
      proposed_def Let_def split: option.splits)

lemma upsert_table_blocked:
  assumes "\<not> connect_goes_through e d"
  shows "table_after (upsertGoogleIntegration e d t) = t"
proof (cases "getUser e")
  case None
  then show ?thesis by (simp add: upsertGoogleIntegration_def)
next
  case (Some u)
  then show ?thesis
    using assms
    by (auto simp add: upsertGoogleIntegration_def connect_goes_through_def request_db_def
        Let_def split: option.splits)
qed

text \<open>
  An expiry that is a valid date and that the database does not read: the call comes
  back with the database's error and nothing is written. So it is for an expiry in
  the year 10000.
\<close>

lemma connect_refused_expiry:
  assumes "getUser e = Some u" and "db_failure e = None"
    and "tokenExpiresAt e d = Some ms" and "valid_time_value ms" and "\<not> timestamptz_in ms"
  shows "upsertGoogleIntegration e d t =
     \<lparr>returned = Error timestamptz_refused, table_after = t,
      requests = [Auth_getUser, Rpc_upsert_google_user_integration]\<rparr>"
  using assms
  by (simp add: upsertGoogleIntegration_def request_db_def Let_def)

lemma connect_refused_from_year_10000:
  "upsertGoogleIntegration
     \<lparr>session_user = Some ''user-1'', getUser_error = None, date_now = 0,
      db_now = 0, gen_random_uuid = ''row-1'', db_failure = None\<rparr>
     \<lparr>provider_access_token = Some ''A'', provider_refresh_token = Some ''R'',
      expires_in = Some 253402300800, data_scopes = [''openid''],
      data_provider_user_id = ''google-7''\<rparr>
     []
   = \<lparr>returned = Error ''invalid input syntax for type timestamp with time zone'',
      table_after = [],
      requests = [Auth_getUser, Rpc_upsert_google_user_integration]\<rparr>"
  by (simp add: eval_defs)

lemma disconnect_sql_own:
  assumes "session_user e = Some u"
  shows "sql_update e (disconnect_set e) (eq_user_google u) t =
     Inr (map (\<lambda>r. if eq_user_google u r
                    then trigger_set_timestamp e (disconnect_set e r) else r) t)"
proof -
  have target: "(\<lambda>r. policy_select_using (session_user e) r \<and>
                  policy_update_using (session_user e) r \<and> eq_user_google u r) = eq_user_google u"
    using assms
    by (auto simp add: policy_select_using_def policy_update_using_def eq_user_google_def)
  have chk: "list_all (policy_update_check (session_user e))
       (map (\<lambda>r. trigger_set_timestamp e (disconnect_set e r)) (filter (eq_user_google u) t))"
    using assms
    by (simp add: list_all_iff policy_update_check_def trigger_set_timestamp_def
        disconnect_set_def eq_user_google_def)
  show ?thesis
    using chk by (simp add: sql_update_def target Let_def)
qed

lemma disconnect_through:
  assumes "getUser e = Some u" and "db_failure e = None"
  shows "disconnectGoogleIntegration e t =
     \<lparr>returned = Success (),
      table_after = map (\<lambda>r. if eq_user_google u r
                              then trigger_set_timestamp e (disconnect_set e r) else r) t,
      requests = [Auth_getUser, Update_user_integrations,
                  RevalidatePath ''/settings/integrations'']\<rparr>"
  using assms disconnect_sql_own [OF getUser_session [OF assms(1)]]
  by (simp add: disconnectGoogleIntegration_def request_db_def)

lemma disconnect_blocked:
  assumes "getUser e = None \<or> db_failure e \<noteq> None"
  shows "table_after (disconnectGoogleIntegration e t) = t"
  using assms
  by (auto simp add: disconnectGoogleIntegration_def request_db_def split: option.splits)

subsection \<open>The unique constraint holds throughout\<close>

lemma eq_user_google_fun:
  "eq_user_google u = (\<lambda>r. (user_id r, provider r) = (u, ''google''))"
  by (rule ext) (simp add: eq_user_google_def)

lemma keys_after_update:
  assumes "\<And>r. user_id (g r) = user_id r \<and> provider (g r) = provider r"
  shows "unique_user_provider (map (\<lambda>r. if P r then g r else r) t) = unique_user_provider t"
proof -
  have "map (\<lambda>r. (user_id r, provider r)) (map (\<lambda>r. if P r then g r else r) t) =
        map (\<lambda>r. (user_id r, provider r)) t"
    using assms by (induction t) auto
  then show ?thesis
    by (simp only: unique_user_provider_def)
qed

lemma connect_row_keeps_key:
  "user_id (trigger_set_timestamp e (do_update_set e x r)) = user_id r \<and>
   provider (trigger_set_timestamp e (do_update_set e x r)) = provider r"
  by (simp add: trigger_set_timestamp_def do_update_set_def)

lemma disconnect_row_keeps_key:
  "user_id (trigger_set_timestamp e (disconnect_set e r)) = user_id r \<and>
   provider (trigger_set_timestamp e (disconnect_set e r)) = provider r"
  by (simp add: trigger_set_timestamp_def disconnect_set_def)

lemma proposed_key: "user_id (proposed e u d) = u \<and> provider (proposed e u d) = ''google''"
  by (simp add: proposed_def excluded_row_def)

lemma no_row_no_key:
  "\<not> list_ex (eq_user_google u) t \<Longrightarrow> (u, ''google'') \<notin> set (map (\<lambda>r. (user_id r, provider r)) t)"
  by (auto simp add: list_ex_iff eq_user_google_def)

lemma unique_upsert:
  assumes "unique_user_provider t"
  shows "unique_user_provider (table_after (upsertGoogleIntegration e d t))"
proof (cases "connect_goes_through e d")
  case False
  then show ?thesis using assms by (simp add: upsert_table_blocked)
next
  case True
  then obtain u where u: "getUser e = Some u"
    by (auto simp add: connect_goes_through_def)
  show ?thesis
  proof (cases "list_ex (eq_user_google u) t")
    case True
    then show ?thesis
      using assms \<open>connect_goes_through e d\<close> u
      by (simp add: upsert_table_through keys_after_update [OF connect_row_keeps_key])
  next
    case False
    then show ?thesis
      using assms \<open>connect_goes_through e d\<close> u no_row_no_key [OF False]
      by (simp add: upsert_table_through unique_user_provider_def proposed_key)
  qed
qed

lemma unique_disconnect:
  assumes "unique_user_provider t"
  shows "unique_user_provider (table_after (disconnectGoogleIntegration e t))"
proof (cases "getUser e = None \<or> db_failure e \<noteq> None")
  case True
  then show ?thesis using assms by (simp add: disconnect_blocked)
next
  case False
  then obtain u where u: "getUser e = Some u" and ok: "db_failure e = None" by auto
  show ?thesis
    using assms
    by (simp add: disconnect_through [OF u ok] keys_after_update [OF disconnect_row_keeps_key])
qed

lemma unique_perform:
  assumes "unique_user_provider t"
  shows "unique_user_provider (perform c t)"
proof -
  obtain e a where c: "c = (e, a)" by (cases c)
  show ?thesis
    using assms by (cases a) (simp_all add: c unique_upsert unique_disconnect)
qed

lemma unique_run:
  "unique_user_provider t \<Longrightarrow> unique_user_provider (run cs t)"
  by (induction cs arbitrary: t) (simp_all add: unique_perform)

lemma run_snoc: "run (cs @ [c]) t = perform c (run cs t)"
  by (induction cs arbitrary: t) simp_all

lemma run_append: "run (cs @ cs') t = run cs' (run cs t)"
  by (induction cs arbitrary: t) simp_all

lemma unique_at_most_one:
  assumes "unique_user_provider t"
  shows "length (filter (eq_user_google u) t) \<le> 1"
proof -
  have "distinct (map (\<lambda>r. (user_id r, provider r)) t) \<Longrightarrow>
        length (filter (\<lambda>r. (user_id r, provider r) = k) t) \<le> 1" for k
  proof (induction t)
    case Nil
    then show ?case by simp
  next
    case (Cons a t)
    then show ?case
      by (auto simp add: filter_empty_conv image_iff)
  qed
  from this [of "(u, ''google'')"] assms show ?thesis
    by (simp only: unique_user_provider_def eq_user_google_fun)
qed

lemma unique_the_row:
  assumes "unique_user_provider t" and "list_ex (eq_user_google u) t"
  shows "\<exists>r. filter (eq_user_google u) t = [r]"
proof -
  from assms(2) have "filter (eq_user_google u) t \<noteq> []"
    by (auto simp add: list_ex_iff filter_empty_conv)
  with unique_at_most_one [OF assms(1), of u] show ?thesis
    by (cases "filter (eq_user_google u) t") auto
qed

lemma filter_updated:
  assumes "\<And>r. P (g r) = P r"
  shows "filter P (map (\<lambda>r. if P r then g r else r) t) = map g (filter P t)"
  using assms by (induction t) auto

lemma eq_user_google_connect_row:
  "eq_user_google u (trigger_set_timestamp e (do_update_set e x r)) = eq_user_google u r"
  by (simp add: eq_user_google_def trigger_set_timestamp_def do_update_set_def)

lemma eq_user_google_disconnect_row:
  "eq_user_google u (trigger_set_timestamp e (disconnect_set e r)) = eq_user_google u r"
  by (simp add: eq_user_google_def trigger_set_timestamp_def disconnect_set_def)

lemma connect_one_record:
  assumes "unique_user_provider t" and "connect_goes_through e d" and "getUser e = Some u"
  shows "\<exists>r. filter (eq_user_google u) (table_after (upsertGoogleIntegration e d t)) = [r] \<and>
             holds_call e d r \<and> updated_at r = db_now e"
proof (cases "list_ex (eq_user_google u) t")
  case True
  from unique_the_row [OF assms(1) True] obtain r0 where r0: "filter (eq_user_google u) t = [r0]" ..
  have "filter (eq_user_google u) (table_after (upsertGoogleIntegration e d t)) =
        [trigger_set_timestamp e (do_update_set e (proposed e u d) r0)]"
    using True r0
    by (simp add: upsert_table_through [OF assms(2,3)]
        filter_updated [of "eq_user_google u", OF eq_user_google_connect_row])
  then show ?thesis
    by (simp add: holds_call_def trigger_set_timestamp_def do_update_set_def proposed_def
        excluded_row_def)
next
  case False
  then have "filter (eq_user_google u) t = []"
    by (auto simp add: list_ex_iff filter_empty_conv)
  then have "filter (eq_user_google u) (table_after (upsertGoogleIntegration e d t)) =
        [proposed e u d]"
    using False proposed_key [of e u d]
    by (simp add: upsert_table_through [OF assms(2,3)] eq_user_google_def)
  then show ?thesis
    by (simp add: holds_call_def proposed_def excluded_row_def)
qed

subsection \<open>Status and tokens\<close>

lemma list_all_updated:
  assumes "list_all Q t" and "\<And>r. Q (g r)"
  shows "list_all Q (map (\<lambda>r. if P r then g r else r) t)"
  using assms by (induction t) auto

lemma connected_or_cleared_upsert:
  assumes "list_all connected_or_cleared t"
  shows "list_all connected_or_cleared (table_after (upsertGoogleIntegration e d t))"
proof (cases "connect_goes_through e d")
  case False
  then show ?thesis using assms by (simp add: upsert_table_blocked)
next
  case True
  then obtain u where u: "getUser e = Some u"
    by (auto simp add: connect_goes_through_def)
  have new: "connected_or_cleared (trigger_set_timestamp e (do_update_set e (proposed e u d) r))" for r
    by (simp add: connected_or_cleared_def trigger_set_timestamp_def do_update_set_def
        proposed_def excluded_row_def)
  have ins: "connected_or_cleared (proposed e u d)"
    by (simp add: connected_or_cleared_def proposed_def excluded_row_def)
  show ?thesis
    using assms ins list_all_updated [OF assms new]
    by (simp add: upsert_table_through [OF True u])
qed

lemma connected_or_cleared_disconnect:
  assumes "list_all connected_or_cleared t"
  shows "list_all connected_or_cleared (table_after (disconnectGoogleIntegration e t))"
proof (cases "getUser e = None \<or> db_failure e \<noteq> None")
  case True
  then show ?thesis using assms by (simp add: disconnect_blocked)
next
  case False
  then obtain u where u: "getUser e = Some u" and ok: "db_failure e = None" by auto
  have new: "connected_or_cleared (trigger_set_timestamp e (disconnect_set e r))" for r
    by (simp add: connected_or_cleared_def trigger_set_timestamp_def disconnect_set_def)
  show ?thesis
    using list_all_updated [OF assms new]
    by (simp add: disconnect_through [OF u ok])
qed

lemma connected_or_cleared_run:
  "list_all connected_or_cleared t \<Longrightarrow> list_all connected_or_cleared (run cs t)"
proof (induction cs arbitrary: t)
  case Nil
  then show ?case by simp
next
  case (Cons c cs)
  obtain e a where c: "c = (e, a)" by (cases c)
  have "list_all connected_or_cleared (perform c t)"
    using Cons.prems
    by (cases a) (simp_all add: c connected_or_cleared_upsert connected_or_cleared_disconnect)
  then show ?case
    using Cons.IH by simp
qed

subsection \<open>What a write leaves behind\<close>

lemma upsert_returned_through:
  assumes "connect_goes_through e d" and "getUser e = Some u"
  shows "\<exists>x. returned (upsertGoogleIntegration e d t) = Success x"
  using assms upsert_sql_own [OF getUser_session [OF assms(2)]]
  by (auto simp add: upsertGoogleIntegration_def connect_goes_through_def request_db_def
      Let_def split: option.splits)

lemma disconnect_one_record:
  assumes "unique_user_provider t" and "list_ex (eq_user_google u) t"
    and "getUser e = Some u" and "db_failure e = None"
  shows "\<exists>r. filter (eq_user_google u) (table_after (disconnectGoogleIntegration e t)) = [r] \<and>
             status r = ''disconnected'' \<and> scopes r = None \<and>
             provider_access_token_encrypted r = None \<and>
             provider_refresh_token_encrypted r = None \<and>
             token_expires_at r = None \<and> provider_user_id r = None \<and>
             updated_at r = db_now e"
proof -
  from unique_the_row [OF assms(1,2)] obtain r0 where r0: "filter (eq_user_google u) t = [r0]" ..
  have "filter (eq_user_google u) (table_after (disconnectGoogleIntegration e t)) =
        [trigger_set_timestamp e (disconnect_set e r0)]"
    using r0
    by (simp add: disconnect_through [OF assms(3,4)]
        filter_updated [of "eq_user_google u", OF eq_user_google_disconnect_row])
  then show ?thesis
    by (simp add: trigger_set_timestamp_def disconnect_set_def)
qed

lemma upsert_makes_record:
  assumes "connect_goes_through e d" and "getUser e = Some u"
  shows "list_ex (eq_user_google u) (table_after (upsertGoogleIntegration e d t))"
proof (cases "list_ex (eq_user_google u) t")
  case True
  then obtain r where r: "r \<in> set t" "eq_user_google u r"
    by (auto simp add: list_ex_iff)
  let ?new = "\<lambda>r. trigger_set_timestamp e (do_update_set e (proposed e u d) r)"
  have "?new r \<in> set (map (\<lambda>r. if eq_user_google u r then ?new r else r) t)"
    using r by force
  moreover have "eq_user_google u (?new r)"
    using r(2) by (simp add: eq_user_google_connect_row)
  ultimately show ?thesis
    using True unfolding upsert_table_through [OF assms] list_ex_iff by auto
next
  case False
  then show ?thesis
    using proposed_key [of e u d]
    by (simp add: upsert_table_through [OF assms] eq_user_google_def)
qed

subsection \<open>Reading one's own record\<close>

lemma sql_select_own:
  assumes "session_user e = Some u"
  shows "sql_select e (\<lambda>r. eq_user_google u r \<and> Q r) t = filter Q (filter (eq_user_google u) t)"
  using assms
  by (auto simp add: sql_select_def policy_select_using_def eq_user_google_def
      intro: filter_cong)

lemma find_filter:
  "find P t = (case filter P t of [] \<Rightarrow> None | r # _ \<Rightarrow> Some r)"
  by (induction t) simp_all

subsection \<open>Other users' records\<close>

lemma filter_updated_others:
  assumes "\<And>r. r \<in> set t \<Longrightarrow> P r \<Longrightarrow> \<not> Q r \<and> \<not> Q (g r)"
  shows "filter Q (map (\<lambda>r. if P r then g r else r) t) = filter Q t"
  using assms by (induction t) auto

lemma sql_select_rows:
  assumes "session_user e = Some a"
  shows "sql_select e w t = filter w (filter (\<lambda>r. user_id r = a) t)"
  using assms
  by (auto simp add: sql_select_def policy_select_using_def intro: filter_cong)

lemma sql_update_others:
  assumes "session_user e = Some a" and "a \<noteq> b" and "sql_update e s w t = Inr t'"
  shows "filter (\<lambda>r. user_id r = b) t' = filter (\<lambda>r. user_id r = b) t"
proof -
  let ?target = "\<lambda>r. policy_select_using (session_user e) r \<and>
                     policy_update_using (session_user e) r \<and> w r"
  let ?new = "\<lambda>r. trigger_set_timestamp e (s r)"
  from assms(3) have chk: "list_all (policy_update_check (session_user e))
                             (map ?new (filter ?target t))"
    and t': "t' = map (\<lambda>r. if ?target r then ?new r else r) t"
    by (auto simp add: sql_update_def Let_def split: if_splits)
  have "filter (\<lambda>r. user_id r = b) (map (\<lambda>r. if ?target r then ?new r else r) t) =
        filter (\<lambda>r. user_id r = b) t"
  proof (rule filter_updated_others)
    fix r
    assume r: "r \<in> set t" "?target r"
    with chk have "policy_update_check (session_user e) (?new r)"
      by (simp add: list_all_iff)
    with r(2) assms(1,2) show "\<not> user_id r = b \<and> \<not> user_id (?new r) = b"
      by (auto simp add: policy_update_check_def policy_update_using_def)
  qed
  with t' show ?thesis by simp
qed

lemma upsert_sql_foreign:
  assumes "session_user e \<noteq> Some p"
  shows "upsert_google_user_integration e p pu sc a rf x t = Inl rls_violation"
  using assms
  by (simp add: upsert_google_user_integration_def policy_insert_check_def excluded_row_def
      Let_def)

lemma upsert_others:
  assumes "session_user e = Some a" and "a \<noteq> b"
  shows "filter (\<lambda>r. user_id r = b) (table_after (upsertGoogleIntegration e d t)) =
         filter (\<lambda>r. user_id r = b) t"
proof (cases "connect_goes_through e d")
  case False
  then show ?thesis by (simp add: upsert_table_blocked)
next
  case True
  then obtain u where u: "getUser e = Some u"
    by (auto simp add: connect_goes_through_def)
  with assms(1) have "u = a"
    using getUser_session by fastforce
  with u have ga: "getUser e = Some a" by simp
  have "filter (\<lambda>r. user_id r = b)
          (map (\<lambda>r. if eq_user_google a r
                     then trigger_set_timestamp e (do_update_set e (proposed e a d) r) else r) t) =
        filter (\<lambda>r. user_id r = b) t"
    using assms(2)
    by (intro filter_updated_others)
       (simp add: eq_user_google_def trigger_set_timestamp_def do_update_set_def)
  then show ?thesis
    using assms(2) proposed_key [of e a d]
    by (simp add: upsert_table_through [OF True ga])
qed

lemma disconnect_others:
  assumes "session_user e = Some a" and "a \<noteq> b"
  shows "filter (\<lambda>r. user_id r = b) (table_after (disconnectGoogleIntegration e t)) =
         filter (\<lambda>r. user_id r = b) t"
proof (cases "getUser e = None \<or> db_failure e \<noteq> None")
  case True
  then show ?thesis by (simp add: disconnect_blocked)
next
  case False
  then obtain u where u: "getUser e = Some u" and ok: "db_failure e = None" by auto
  with assms(1) have "u = a"
    using getUser_session by fastforce
  with u have ga: "getUser e = Some a" by simp
  have "filter (\<lambda>r. user_id r = b)
          (map (\<lambda>r. if eq_user_google a r
                     then trigger_set_timestamp e (disconnect_set e r) else r) t) =
        filter (\<lambda>r. user_id r = b) t"
    using assms(2)
    by (intro filter_updated_others)
       (simp add: eq_user_google_def trigger_set_timestamp_def disconnect_set_def)
  then show ?thesis
    by (simp add: disconnect_through [OF ga ok])
qed

lemma own_rows_google:
  assumes "filter (\<lambda>r. user_id r = a) t = filter (\<lambda>r. user_id r = a) t'"
  shows "filter (eq_user_google a) t = filter (eq_user_google a) t'"
proof -
  have split: "filter (eq_user_google a) s =
        filter (\<lambda>r. provider r = ''google'') (filter (\<lambda>r. user_id r = a) s)" for s
    by (auto simp add: eq_user_google_def intro: filter_cong)
  show ?thesis
    by (simp only: split assms)
qed

lemma upsert_returned_own_rows:
  assumes "session_user e = Some a"
    and "filter (\<lambda>r. user_id r = a) t = filter (\<lambda>r. user_id r = a) t'"
  shows "returned (upsertGoogleIntegration e d t) = returned (upsertGoogleIntegration e d t')"
proof (cases "getUser e")
  case None
  then show ?thesis by (simp add: upsertGoogleIntegration_def)
next
  case (Some u)
  with assms(1) have "u = a"
    using getUser_session by fastforce
  with Some have ga: "getUser e = Some a" by simp
  have ex: "list_ex (eq_user_google a) s = (filter (eq_user_google a) s \<noteq> [])" for s
    by (auto simp add: list_ex_iff filter_empty_conv)
  show ?thesis
    using own_rows_google [OF assms(2)]
    by (simp add: upsertGoogleIntegration_def request_db_def upsert_sql_own [OF assms(1)] ga ex
        Let_def split: option.splits)
qed

lemma disconnect_returned_own_rows:
  "returned (disconnectGoogleIntegration e t) = returned (disconnectGoogleIntegration e t')"
proof (cases "getUser e")
  case None
  then show ?thesis by (simp add: disconnectGoogleIntegration_def)
next
  case (Some u)
  show ?thesis
  proof (cases "db_failure e")
    case None
    then show ?thesis by (simp add: disconnect_through [OF Some None])
  next
    case (Some m)
    then show ?thesis
      using \<open>getUser e = Some u\<close>
      by (simp add: disconnectGoogleIntegration_def request_db_def)
  qed
qed

lemma fetch_returned_own_rows:
  assumes "session_user e = Some a"
    and "filter (\<lambda>r. user_id r = a) t = filter (\<lambda>r. user_id r = a) t'"
  shows "returned (fetchIntegrationStatus e user t) = returned (fetchIntegrationStatus e user t')"
proof (cases user)
  case None
  then show ?thesis by (simp add: fetchIntegrationStatus_def)
next
  case (Some v)
  have "sql_select e (eq_user_google v) t = sql_select e (eq_user_google v) t'"
    by (simp only: sql_select_rows [OF assms(1)] assms(2))
  then have "request_db e (\<lambda>t. maybeSingle (map (\<lambda>r. (status r, scopes r))
                                   (sql_select e (eq_user_google v) t))) t =
             request_db e (\<lambda>t. maybeSingle (map (\<lambda>r. (status r, scopes r))
                                   (sql_select e (eq_user_google v) t))) t'"
    by (simp add: request_db_def split: option.splits)
  then show ?thesis
    by (simp add: fetchIntegrationStatus_def Some split: sum.splits option.splits)
qed

subsection \<open>The timestamp of a write\<close>

text \<open>
  What a call does to the table: some records are rewritten in place, keeping their
  identity and stamped with the call's \<open>NOW()\<close>; at most one, stamped likewise, is
  added at the end.
\<close>

lemma perform_shape:
  "\<exists>f ex. perform c t = map f t @ ex \<and>
     (\<forall>r. f r = r \<or> (updated_at (f r) = db_now (fst c) \<and> same_record r (f r))) \<and>
     (\<forall>p \<in> set ex. updated_at p = db_now (fst c))"
proof -
  obtain e a where c: "c = (e, a)" by (cases c)
  let ?shape = "\<lambda>t'. \<exists>f ex. t' = map f t @ ex \<and>
     (\<forall>r. f r = r \<or> (updated_at (f r) = db_now e \<and> same_record r (f r))) \<and>
     (\<forall>p \<in> set ex. updated_at p = db_now e)"
  have same: "?shape t"
    by (rule exI [of _ id], rule exI [of _ "[]"]) simp
  have upd: "?shape (map (\<lambda>r. if P r then g r else r) t)"
    if "\<And>r. updated_at (g r) = db_now e \<and> same_record r (g r)" for P g
    by (rule exI [of _ "\<lambda>r. if P r then g r else r"], rule exI [of _ "[]"]) (simp add: that)
  have ins: "?shape (t @ [p])" if "updated_at p = db_now e" for p
    by (rule exI [of _ id], rule exI [of _ "[p]"]) (simp add: that)
  have "?shape (perform c t)"
  proof (cases a)
    case (Connect d)
    show ?thesis
    proof (cases "connect_goes_through e d")
      case False
      then show ?thesis using same by (simp add: c Connect upsert_table_blocked)
    next
      case True
      then obtain u where u: "getUser e = Some u"
        by (auto simp add: connect_goes_through_def)
      have g: "updated_at (trigger_set_timestamp e (do_update_set e (proposed e u d) r)) = db_now e \<and>
               same_record r (trigger_set_timestamp e (do_update_set e (proposed e u d) r))" for r
        by (simp add: same_record_def trigger_set_timestamp_def do_update_set_def)
      have p: "updated_at (proposed e u d) = db_now e"
        by (simp add: proposed_def excluded_row_def)
      show ?thesis
        using upd [of "\<lambda>r. trigger_set_timestamp e (do_update_set e (proposed e u d) r)"
                      "eq_user_google u", OF g] ins [OF p]
        by (simp add: c Connect upsert_table_through [OF True u])
    qed
  next
    case Disconnect
    show ?thesis
    proof (cases "getUser e = None \<or> db_failure e \<noteq> None")
      case True
      then show ?thesis using same by (simp add: c Disconnect disconnect_blocked)
    next
      case False
      then obtain u where u: "getUser e = Some u" and ok: "db_failure e = None" by auto
      have g: "updated_at (trigger_set_timestamp e (disconnect_set e r)) = db_now e \<and>
               same_record r (trigger_set_timestamp e (disconnect_set e r))" for r
        by (simp add: same_record_def trigger_set_timestamp_def disconnect_set_def)
      show ?thesis
        using upd [of "\<lambda>r. trigger_set_timestamp e (disconnect_set e r)" "eq_user_google u", OF g]
        by (simp add: c Disconnect disconnect_through [OF u ok])
    qed
  qed
  then show ?thesis by (simp add: c)
qed

lemma perform_stamps:
  "length t \<le> length (perform c t) \<and>
   (\<forall>i < length (perform c t).
      (i < length t \<and> perform c t ! i = t ! i) \<or>
      updated_at (perform c t ! i) = db_now (fst c))"
proof -
  from perform_shape [of c t] obtain f ex where
    t': "perform c t = map f t @ ex"
    and f: "\<forall>r. f r = r \<or> (updated_at (f r) = db_now (fst c) \<and> same_record r (f r))"
    and ex: "\<forall>p \<in> set ex. updated_at p = db_now (fst c)"
    by blast
  have "(i < length t \<and> (map f t @ ex) ! i = t ! i) \<or>
        updated_at ((map f t @ ex) ! i) = db_now (fst c)"
    if "i < length (map f t @ ex)" for i
  proof (cases "i < length t")
    case True
    then show ?thesis using f by (auto simp add: nth_append)
  next
    case False
    with that have "(map f t @ ex) ! i \<in> set ex"
      by (simp add: nth_append)
    with ex show ?thesis by blast
  qed
  then show ?thesis
    by (simp add: t')
qed

lemma perform_monotone:
  assumes "list_all (\<lambda>r. updated_at r \<le> db_now (fst c)) t"
  shows "length t \<le> length (perform c t) \<and>
         (\<forall>i < length t. same_record (t ! i) (perform c t ! i) \<and>
                         updated_at (t ! i) \<le> updated_at (perform c t ! i))"
proof -
  from perform_shape [of c t] obtain f ex where
    t': "perform c t = map f t @ ex"
    and f: "\<forall>r. f r = r \<or> (updated_at (f r) = db_now (fst c) \<and> same_record r (f r))"
    by blast
  have "same_record (t ! i) (f (t ! i)) \<and> updated_at (t ! i) \<le> updated_at (f (t ! i))"
    if "i < length t" for i
  proof -
    from that assms have "updated_at (t ! i) \<le> db_now (fst c)"
      by (simp add: list_all_length)
    with f [rule_format, of "t ! i"] show ?thesis
      by (auto simp add: same_record_def)
  qed
  then show ?thesis
    by (simp add: t' nth_append)
qed

lemma clock_step:
  assumes "clock_moves_on t (c # cs)"
  shows "clock_moves_on (perform c t) cs"
proof -
  from assms have sorted: "sorted (map (\<lambda>c. db_now (fst c)) cs)"
    and later: "\<forall>c' \<in> set cs. db_now (fst c) \<le> db_now (fst c')"
    and old: "\<forall>r \<in> set t. \<forall>c' \<in> set cs. updated_at r \<le> db_now (fst c')"
    by (auto simp add: clock_moves_on_def list_all_iff)
  from perform_shape [of c t] obtain f ex where
    t': "perform c t = map f t @ ex"
    and f: "\<forall>r. f r = r \<or> (updated_at (f r) = db_now (fst c) \<and> same_record r (f r))"
    and ex: "\<forall>p \<in> set ex. updated_at p = db_now (fst c)"
    by blast
  have "updated_at r' \<le> db_now (fst c')" if "r' \<in> set (map f t @ ex)" and "c' \<in> set cs" for r' c'
  proof -
    from that(1) consider r where "r \<in> set t" "r' = f r" | "r' \<in> set ex" by auto
    then show ?thesis
    proof cases
      case 1
      with f [rule_format, of r] old later that(2) show ?thesis by auto
    next
      case 2
      with ex later that(2) show ?thesis by auto
    qed
  qed
  with sorted show ?thesis
    by (simp add: clock_moves_on_def list_all_iff t')
qed

lemma clock_run:
  "clock_moves_on t (cs @ cs') \<Longrightarrow> clock_moves_on (run cs t) cs'"
  by (induction cs arbitrary: t) (simp_all add: clock_step)

lemma clock_head:
  "clock_moves_on t (c # cs) \<Longrightarrow> list_all (\<lambda>r. updated_at r \<le> db_now (fst c)) t"
  by (simp add: clock_moves_on_def list_all_iff)

lemma run_monotone:
  assumes "clock_moves_on t cs"
  shows "length t \<le> length (run cs t) \<and>
         (\<forall>i < length t. same_record (t ! i) (run cs t ! i) \<and>
                         updated_at (t ! i) \<le> updated_at (run cs t ! i))"
  using assms
proof (induction cs arbitrary: t)
  case Nil
  then show ?case by (simp add: same_record_def)
next
  case (Cons c cs)
  from perform_monotone [OF clock_head [OF Cons.prems]]
  have step: "length t \<le> length (perform c t)"
    "\<And>i. i < length t \<Longrightarrow> same_record (t ! i) (perform c t ! i) \<and>
                         updated_at (t ! i) \<le> updated_at (perform c t ! i)"
    by blast+
  from Cons.IH [OF clock_step [OF Cons.prems]]
  have rest: "length (perform c t) \<le> length (run cs (perform c t))"
    "\<And>i. i < length (perform c t) \<Longrightarrow>
       same_record (perform c t ! i) (run cs (perform c t) ! i) \<and>
       updated_at (perform c t ! i) \<le> updated_at (run cs (perform c t) ! i)"
    by blast+
  have "same_record (t ! i) (run cs (perform c t) ! i) \<and>
        updated_at (t ! i) \<le> updated_at (run cs (perform c t) ! i)" if "i < length t" for i
  proof -
    from that step(1) have "i < length (perform c t)" by simp
    from step(2) [OF that] rest(2) [OF this] show ?thesis
      by (auto simp add: same_record_def)
  qed
  with step(1) rest(1) show ?case by simp
qed

section \<open>The claims\<close>

text \<open>
  C1. The specification has connect encrypt the tokens before the store sees them, so
  that the stored token columns never hold the caller's plaintext. The action passes
  \<open>provider_access_token\<close> and \<open>provider_refresh_token\<close> to the database function
  as they came: a connect with the tokens \<open>ya29.raw-access\<close> and
  \<open>1//raw-refresh\<close> leaves exactly those strings in
  \<open>provider_access_token_encrypted\<close> and \<open>provider_refresh_token_encrypted\<close>.
\<close>

theorem connect_stores_plaintext_tokens:
  "table_after
     (upsertGoogleIntegration
        \<lparr>session_user = Some ''user-1'', getUser_error = None, date_now = 1000,
         db_now = 1000, gen_random_uuid = ''row-1'', db_failure = None\<rparr>
        \<lparr>provider_access_token = Some ''ya29.raw-access'',
         provider_refresh_token = Some ''1//raw-refresh'', expires_in = Some 3600,
         data_scopes = [''openid''], data_provider_user_id = ''google-7''\<rparr>
        [])
   = [\<lparr>row_id = ''row-1'', user_id = ''user-1'', provider = ''google'',
       provider_user_id = Some ''google-7'', status = ''connected'',
       scopes = Some [''openid''],
       provider_access_token_encrypted = Some ''ya29.raw-access'',
       provider_refresh_token_encrypted = Some ''1//raw-refresh'',
       token_expires_at = Some 3601000, created_at = 1000, updated_at = 1000\<rparr>]"
  by (simp add: eval_defs)

text \<open>
  C2. Connect is an upsert on \<open>(user_id, 'google')\<close>. Start from any table that
  satisfies the unique constraint and run any sequence of connects and disconnects,
  by anyone, that ends with a connect of user \<open>u\<close> that goes through: the table
  then holds exactly one record of \<open>u\<close> for google, with status connected and the
  provider user id, scopes, tokens and expiry of that last call.
\<close>

theorem connect_is_idempotent_upsert:
  assumes "unique_user_provider t"
    and "connect_goes_through e d" and "getUser e = Some u"
  shows "\<exists>r. filter (eq_user_google u) (run (cs @ [(e, Connect d)]) t) = [r] \<and>
             status r = ''connected'' \<and>
             provider_user_id r = Some (data_provider_user_id d) \<and>
             scopes r = Some (data_scopes d) \<and>
             provider_access_token_encrypted r = provider_access_token d \<and>
             provider_refresh_token_encrypted r = provider_refresh_token d \<and>
             token_expires_at r = tokenExpiresAt e d"
  using connect_one_record [OF unique_run [OF assms(1)] assms(2,3), of cs]
  by (auto simp add: run_snoc holds_call_def)

theorem connect_is_idempotent_upsert_witness:
  "unique_user_provider [] \<and>
   connect_goes_through (signed_in ''user-1'' 20) (consent (Some ''A2'') (Some ''R2'')) \<and>
   getUser (signed_in ''user-1'' 20) = Some ''user-1'' \<and>
   (\<exists>r. filter (eq_user_google ''user-1'')
          (run ([(signed_in ''user-1'' 10, Connect (consent (Some ''A1'') (Some ''R1'')))] @
                [(signed_in ''user-1'' 20, Connect (consent (Some ''A2'') (Some ''R2'')))]) [])
          = [r] \<and>
        status r = ''connected'' \<and>
        provider_user_id r = Some ''google-7'' \<and>
        scopes r = Some [''openid'', ''email''] \<and>
        provider_access_token_encrypted r = Some ''A2'' \<and>
        provider_refresh_token_encrypted r = Some ''R2'' \<and>
        token_expires_at r = Some 3600020)"
proof -
  have h1: "unique_user_provider []"
    by (simp add: unique_user_provider_def)
  have h2: "connect_goes_through (signed_in ''user-1'' 20) (consent (Some ''A2'') (Some ''R2''))"
    by (simp add: eval_defs)
  have h3: "getUser (signed_in ''user-1'' 20) = Some ''user-1''"
    by (simp add: getUser_def signed_in_def)
  have "tokenExpiresAt (signed_in ''user-1'' 20) (consent (Some ''A2'') (Some ''R2''))
          = Some 3600020"
    by (simp add: tokenExpiresAt_def signed_in_def consent_def)
  with h1 h2 h3
    connect_is_idempotent_upsert [OF h1 h2 h3,
      of "[(signed_in ''user-1'' 10, Connect (consent (Some ''A1'') (Some ''R1'')))]"]
  show ?thesis
    by (simp add: consent_def)
qed

text \<open>
  C3. The specification has a record connected if and only if both token fields were
  non-null at the last write, so that a connect with a null token must not leave the
  record connected. The database function writes \<open>'connected'\<close> on every upsert and
  the action passes a null token through: a connect with an access token and a null
  refresh token leaves a connected record whose refresh token is null.
\<close>

theorem connected_whatever_the_tokens_counterexample:
  "table_after
     (upsertGoogleIntegration
        \<lparr>session_user = Some ''user-1'', getUser_error = None, date_now = 1000,
         db_now = 1000, gen_random_uuid = ''row-1'', db_failure = None\<rparr>
        \<lparr>provider_access_token = Some ''ya29.access'', provider_refresh_token = None,
         expires_in = Some 3600, data_scopes = [''openid''],
         data_provider_user_id = ''google-7''\<rparr>
        [])
   = [\<lparr>row_id = ''row-1'', user_id = ''user-1'', provider = ''google'',
       provider_user_id = Some ''google-7'', status = ''connected'',
       scopes = Some [''openid''],
       provider_access_token_encrypted = Some ''ya29.access'',
       provider_refresh_token_encrypted = None,
       token_expires_at = Some 3601000, created_at = 1000, updated_at = 1000\<rparr>]"
  by (simp add: eval_defs)

text \<open>
  C3, as the code has it. In every table reached from the empty one by connects and
  disconnects, each record is connected, or disconnected with both token fields (and
  scopes and expiry) null: a record that holds a token is connected. The converse
  fails: a connect that goes through leaves the user's one record connected with the
  token fields it was given, null or not.
\<close>

theorem token_holders_are_connected:
  "list_all connected_or_cleared (run cs []) \<and>
   (connect_goes_through e d \<and> getUser e = Some u \<longrightarrow>
      (\<exists>r. filter (eq_user_google u) (table_after (upsertGoogleIntegration e d (run cs []))) = [r] \<and>
           status r = ''connected'' \<and>
           provider_access_token_encrypted r = provider_access_token d \<and>
           provider_refresh_token_encrypted r = provider_refresh_token d))"
proof
  show "list_all connected_or_cleared (run cs [])"
    by (rule connected_or_cleared_run) simp
next
  have uniq: "unique_user_provider (run cs [])"
    by (rule unique_run) (simp add: unique_user_provider_def)
  show "connect_goes_through e d \<and> getUser e = Some u \<longrightarrow>
      (\<exists>r. filter (eq_user_google u) (table_after (upsertGoogleIntegration e d (run cs []))) = [r] \<and>
           status r = ''connected'' \<and>
           provider_access_token_encrypted r = provider_access_token d \<and>
           provider_refresh_token_encrypted r = provider_refresh_token d)"
  proof
    assume h: "connect_goes_through e d \<and> getUser e = Some u"
    from connect_one_record [OF uniq, of e d u] h
    show "\<exists>r. filter (eq_user_google u) (table_after (upsertGoogleIntegration e d (run cs []))) = [r] \<and>
           status r = ''connected'' \<and>
           provider_access_token_encrypted r = provider_access_token d \<and>
           provider_refresh_token_encrypted r = provider_refresh_token d"
      by (auto simp add: holds_call_def)
  qed
qed

theorem token_holders_are_connected_witness:
  "list_all connected_or_cleared
     (run [(signed_in ''user-1'' 10, Connect (consent (Some ''A1'') (Some ''R1''))),
           (signed_in ''user-1'' 20, Disconnect)] []) \<and>
   connect_goes_through (signed_in ''user-1'' 30) (consent None None) \<and>
   getUser (signed_in ''user-1'' 30) = Some ''user-1'' \<and>
   (\<exists>r. filter (eq_user_google ''user-1'')
          (table_after (upsertGoogleIntegration (signed_in ''user-1'' 30) (consent None None)
             (run [(signed_in ''user-1'' 10, Connect (consent (Some ''A1'') (Some ''R1''))),
                   (signed_in ''user-1'' 20, Disconnect)] []))) = [r] \<and>
        status r = ''connected'' \<and>
        provider_access_token_encrypted r = None \<and>
        provider_refresh_token_encrypted r = None)"
proof -
  have h2: "connect_goes_through (signed_in ''user-1'' 30) (consent None None)"
    by (simp add: eval_defs)
  have h3: "getUser (signed_in ''user-1'' 30) = Some ''user-1''"
    by (simp add: getUser_def signed_in_def)
  from h2 h3
    token_holders_are_connected
      [of "[(signed_in ''user-1'' 10, Connect (consent (Some ''A1'') (Some ''R1''))),
            (signed_in ''user-1'' 20, Disconnect)]"
          "signed_in ''user-1'' 30" "consent None None" "''user-1''"]
  show ?thesis
    by (simp add: consent_def)
qed

text \<open>
  C4. The specification has every token-updating write compare the record's version
  (\<open>updatedAt\<close>) with the one it read, and answer Conflict without writing when
  they differ. Neither writer of the code takes a version. A record is read at
  \<open>updated_at = 1\<close>; another connect then stores newer tokens and moves
  \<open>updated_at\<close> to 2000; a connect computed from the first read, run on that
  newer table, then returns success and replaces the newer tokens.
\<close>

theorem stale_write_overwrites_counterexample:
  "table_after
     (upsertGoogleIntegration
        \<lparr>session_user = Some ''user-1'', getUser_error = None, date_now = 2000,
         db_now = 2000, gen_random_uuid = ''row-2'', db_failure = None\<rparr>
        \<lparr>provider_access_token = Some ''access-newer'',
         provider_refresh_token = Some ''refresh-newer'', expires_in = Some 3600,
         data_scopes = [''openid''], data_provider_user_id = ''google-7''\<rparr>
        [\<lparr>row_id = ''row-1'', user_id = ''user-1'', provider = ''google'',
          provider_user_id = Some ''google-7'', status = ''connected'',
          scopes = Some [''openid''], provider_access_token_encrypted = Some ''access-0'',
          provider_refresh_token_encrypted = Some ''refresh-0'',
          token_expires_at = Some 3600, created_at = 1, updated_at = 1\<rparr>])
   = [\<lparr>row_id = ''row-1'', user_id = ''user-1'', provider = ''google'',
       provider_user_id = Some ''google-7'', status = ''connected'',
       scopes = Some [''openid''], provider_access_token_encrypted = Some ''access-newer'',
       provider_refresh_token_encrypted = Some ''refresh-newer'',
       token_expires_at = Some 3602000, created_at = 1, updated_at = 2000\<rparr>] \<and>
   returned
     (upsertGoogleIntegration
        \<lparr>session_user = Some ''user-1'', getUser_error = None, date_now = 3000,
         db_now = 3000, gen_random_uuid = ''row-3'', db_failure = None\<rparr>
        \<lparr>provider_access_token = Some ''access-from-stale-read'',
         provider_refresh_token = Some ''refresh-0'', expires_in = Some 3600,
         data_scopes = [''openid''], data_provider_user_id = ''google-7''\<rparr>
        [\<lparr>row_id = ''row-1'', user_id = ''user-1'', provider = ''google'',
          provider_user_id = Some ''google-7'', status = ''connected'',
          scopes = Some [''openid''],
          provider_access_token_encrypted = Some ''access-newer'',
          provider_refresh_token_encrypted = Some ''refresh-newer'',
          token_expires_at = Some 3602000, created_at = 1, updated_at = 2000\<rparr>])
   = Success (Some
       \<lparr>row_id = ''row-1'', user_id = ''user-1'', provider = ''google'',
        provider_user_id = Some ''google-7'', status = ''connected'',
        scopes = Some [''openid''],
        provider_access_token_encrypted = Some ''access-from-stale-read'',
        provider_refresh_token_encrypted = Some ''refresh-0'',
        token_expires_at = Some 3603000, created_at = 1, updated_at = 3000\<rparr>) \<and>
   table_after
     (upsertGoogleIntegration
        \<lparr>session_user = Some ''user-1'', getUser_error = None, date_now = 3000,
         db_now = 3000, gen_random_uuid = ''row-3'', db_failure = None\<rparr>
        \<lparr>provider_access_token = Some ''access-from-stale-read'',
         provider_refresh_token = Some ''refresh-0'', expires_in = Some 3600,
         data_scopes = [''openid''], data_provider_user_id = ''google-7''\<rparr>
        [\<lparr>row_id = ''row-1'', user_id = ''user-1'', provider = ''google'',
          provider_user_id = Some ''google-7'', status = ''connected'',
          scopes = Some [''openid''],
          provider_access_token_encrypted = Some ''access-newer'',
          provider_refresh_token_encrypted = Some ''refresh-newer'',
          token_expires_at = Some 3602000, created_at = 1, updated_at = 2000\<rparr>])
   = [\<lparr>row_id = ''row-1'', user_id = ''user-1'', provider = ''google'',
       provider_user_id = Some ''google-7'', status = ''connected'',
       scopes = Some [''openid''],
       provider_access_token_encrypted = Some ''access-from-stale-read'',
       provider_refresh_token_encrypted = Some ''refresh-0'',
       token_expires_at = Some 3603000, created_at = 1, updated_at = 3000\<rparr>]"
  by (simp add: eval_defs)

text \<open>
  C4, as the code has it. Each write (the connect upsert, the disconnect update) is a
  single statement keyed on \<open>(user_id, provider)\<close> that takes no version and has
  no Conflict answer. Run after another connect has rewritten the record and moved
  its \<open>updated_at\<close>, a connect that goes through still returns success and leaves
  the one record with its own values, and a disconnect still returns success and
  leaves it cleared; \<open>updated_at\<close> is the later write's \<open>NOW()\<close>. The last
  write wins.
\<close>

theorem writes_take_no_version:
  assumes "unique_user_provider t"
    and "connect_goes_through e1 d1" and "getUser e1 = Some u"
    and "connect_goes_through e2 d2" and "getUser e2 = Some u"
  shows "(\<exists>x. returned (upsertGoogleIntegration e2 d2
                 (table_after (upsertGoogleIntegration e1 d1 t))) = Success x) \<and>
         (\<exists>r. filter (eq_user_google u)
                 (table_after (upsertGoogleIntegration e2 d2
                    (table_after (upsertGoogleIntegration e1 d1 t)))) = [r] \<and>
              holds_call e2 d2 r \<and> updated_at r = db_now e2) \<and>
         returned (disconnectGoogleIntegration e2
                 (table_after (upsertGoogleIntegration e1 d1 t))) = Success () \<and>
         (\<exists>r. filter (eq_user_google u)
                 (table_after (disconnectGoogleIntegration e2
                    (table_after (upsertGoogleIntegration e1 d1 t)))) = [r] \<and>
              status r = ''disconnected'' \<and>
              provider_access_token_encrypted r = None \<and>
              provider_refresh_token_encrypted r = None \<and>
              token_expires_at r = None \<and> updated_at r = db_now e2)"
proof -
  let ?t1 = "table_after (upsertGoogleIntegration e1 d1 t)"
  have uniq: "unique_user_provider ?t1"
    by (rule unique_upsert [OF assms(1)])
  have there: "list_ex (eq_user_google u) ?t1"
    by (rule upsert_makes_record [OF assms(2,3)])
  have ok: "db_failure e2 = None"
    using assms(4) by (simp add: connect_goes_through_def)
  have a: "\<exists>x. returned (upsertGoogleIntegration e2 d2 ?t1) = Success x"
    by (rule upsert_returned_through [OF assms(4,5)])
  have b: "\<exists>r. filter (eq_user_google u) (table_after (upsertGoogleIntegration e2 d2 ?t1)) = [r] \<and>
              holds_call e2 d2 r \<and> updated_at r = db_now e2"
    by (rule connect_one_record [OF uniq assms(4,5)])
  have c: "returned (disconnectGoogleIntegration e2 ?t1) = Success ()"
    by (simp add: disconnect_through [OF assms(5) ok])
  have d: "\<exists>r. filter (eq_user_google u) (table_after (disconnectGoogleIntegration e2 ?t1)) = [r] \<and>
              status r = ''disconnected'' \<and>
              provider_access_token_encrypted r = None \<and>
              provider_refresh_token_encrypted r = None \<and>
              token_expires_at r = None \<and> updated_at r = db_now e2"
    using disconnect_one_record [OF uniq there assms(5) ok] by blast
  from a b c d show ?thesis by blast
qed


theorem writes_take_no_version_witness:
  "unique_user_provider [] \<and>
   connect_goes_through (signed_in ''user-1'' 10) (consent (Some ''A1'') (Some ''R1'')) \<and>
   getUser (signed_in ''user-1'' 10) = Some ''user-1'' \<and>
   connect_goes_through (signed_in ''user-1'' 20) (consent (Some ''A2'') (Some ''R2'')) \<and>
   getUser (signed_in ''user-1'' 20) = Some ''user-1'' \<and>
   (\<exists>x. returned (upsertGoogleIntegration (signed_in ''user-1'' 20)
                    (consent (Some ''A2'') (Some ''R2''))
            (table_after (upsertGoogleIntegration (signed_in ''user-1'' 10)
                    (consent (Some ''A1'') (Some ''R1'')) []))) = Success x) \<and>
   (\<exists>r. filter (eq_user_google ''user-1'')
            (table_after (upsertGoogleIntegration (signed_in ''user-1'' 20)
                    (consent (Some ''A2'') (Some ''R2''))
               (table_after (upsertGoogleIntegration (signed_in ''user-1'' 10)
                    (consent (Some ''A1'') (Some ''R1'')) [])))) = [r] \<and>
        provider_access_token_encrypted r = Some ''A2'' \<and>
        provider_refresh_token_encrypted r = Some ''R2'' \<and> updated_at r = 20) \<and>
   returned (disconnectGoogleIntegration (signed_in ''user-1'' 20)
            (table_after (upsertGoogleIntegration (signed_in ''user-1'' 10)
                    (consent (Some ''A1'') (Some ''R1'')) []))) = Success () \<and>
   (\<exists>r. filter (eq_user_google ''user-1'')
            (table_after (disconnectGoogleIntegration (signed_in ''user-1'' 20)
               (table_after (upsertGoogleIntegration (signed_in ''user-1'' 10)
                    (consent (Some ''A1'') (Some ''R1'')) [])))) = [r] \<and>
        status r = ''disconnected'' \<and>
        provider_access_token_encrypted r = None \<and>
        provider_refresh_token_encrypted r = None \<and> updated_at r = 20)"
proof -
  have h1: "unique_user_provider []"
    by (simp add: unique_user_provider_def)
  have h2: "connect_goes_through (signed_in ''user-1'' 10) (consent (Some ''A1'') (Some ''R1''))"
    by (simp add: eval_defs)
  have h3: "getUser (signed_in ''user-1'' 10) = Some ''user-1''"
    by (simp add: getUser_def signed_in_def)
  have h4: "connect_goes_through (signed_in ''user-1'' 20) (consent (Some ''A2'') (Some ''R2''))"
    by (simp add: eval_defs)
  have h5: "getUser (signed_in ''user-1'' 20) = Some ''user-1''"
    by (simp add: getUser_def signed_in_def)
  have now: "db_now (signed_in ''user-1'' 20) = 20"
    by (simp add: signed_in_def)
  have tok: "provider_access_token (consent (Some ''A2'') (Some ''R2'')) = Some ''A2''"
    "provider_refresh_token (consent (Some ''A2'') (Some ''R2'')) = Some ''R2''"
    by (simp_all add: consent_def)
  from writes_take_no_version [OF h1 h2 h3 h4 h5] h1 h2 h3 h4 h5
  show ?thesis
    unfolding holds_call_def now tok by blast
qed

text \<open>
  C6. For a signed-in user whose request reaches the database, disconnect returns
  success; every record of the user for google then has status disconnected and
  null scopes, tokens, expiry and provider user id; no record is added or removed and
  the records of other keys are as before. With no record for the user it changes
  nothing and still returns success.
\<close>

theorem disconnect_clears_the_record:
  assumes "getUser e = Some u" and "db_failure e = None"
  shows "returned (disconnectGoogleIntegration e t) = Success () \<and>
         (\<forall>r \<in> set (table_after (disconnectGoogleIntegration e t)).
            eq_user_google u r \<longrightarrow>
              status r = ''disconnected'' \<and> scopes r = None \<and>
              provider_access_token_encrypted r = None \<and>
              provider_refresh_token_encrypted r = None \<and>
              token_expires_at r = None \<and> provider_user_id r = None) \<and>
         map row_id (table_after (disconnectGoogleIntegration e t)) = map row_id t \<and>
         map (\<lambda>r. (user_id r, provider r)) (table_after (disconnectGoogleIntegration e t)) =
           map (\<lambda>r. (user_id r, provider r)) t \<and>
         filter (\<lambda>r. \<not> eq_user_google u r) (table_after (disconnectGoogleIntegration e t)) =
           filter (\<lambda>r. \<not> eq_user_google u r) t \<and>
         (\<not> list_ex (eq_user_google u) t \<longrightarrow>
            table_after (disconnectGoogleIntegration e t) = t)"
proof -
  let ?clear = "\<lambda>r. trigger_set_timestamp e (disconnect_set e r)"
  let ?t' = "map (\<lambda>r. if eq_user_google u r then ?clear r else r) t"
  have out: "disconnectGoogleIntegration e t =
     \<lparr>returned = Success (), table_after = ?t',
      requests = [Auth_getUser, Update_user_integrations,
                  RevalidatePath ''/settings/integrations'']\<rparr>"
    by (rule disconnect_through [OF assms])
  have cleared: "\<forall>r \<in> set ?t'. eq_user_google u r \<longrightarrow>
              status r = ''disconnected'' \<and> scopes r = None \<and>
              provider_access_token_encrypted r = None \<and>
              provider_refresh_token_encrypted r = None \<and>
              token_expires_at r = None \<and> provider_user_id r = None"
    by (auto simp add: trigger_set_timestamp_def disconnect_set_def)
  have ids: "map row_id ?t' = map row_id t"
    by (induction t) (simp_all add: trigger_set_timestamp_def disconnect_set_def)
  have keys: "map (\<lambda>r. (user_id r, provider r)) ?t' = map (\<lambda>r. (user_id r, provider r)) t"
    by (induction t) (simp_all add: trigger_set_timestamp_def disconnect_set_def)
  have others: "filter (\<lambda>r. \<not> eq_user_google u r) ?t' = filter (\<lambda>r. \<not> eq_user_google u r) t"
    by (induction t) (simp_all add: eq_user_google_disconnect_row)
  have none: "\<not> list_ex (eq_user_google u) t \<longrightarrow> ?t' = t"
    by (induction t) simp_all
  from cleared ids keys others none show ?thesis
    unfolding out by simp
qed

theorem disconnect_clears_the_record_witness:
  "getUser (signed_in ''user-2'' 30) = Some ''user-2'' \<and>
   db_failure (signed_in ''user-2'' 30) = None \<and>
   returned (disconnectGoogleIntegration (signed_in ''user-2'' 30) []) = Success () \<and>
   table_after (disconnectGoogleIntegration (signed_in ''user-2'' 30) []) = [] \<and>
   getUser (signed_in ''user-1'' 20) = Some ''user-1'' \<and>
   db_failure (signed_in ''user-1'' 20) = None \<and>
   returned (disconnectGoogleIntegration (signed_in ''user-1'' 20)
      (table_after (upsertGoogleIntegration (signed_in ''user-1'' 10)
         (consent (Some ''A1'') (Some ''R1'')) []))) = Success () \<and>
   list_all (\<lambda>r. status r = ''disconnected'' \<and> scopes r = None \<and>
                  provider_access_token_encrypted r = None \<and>
                  provider_refresh_token_encrypted r = None)
     (table_after (disconnectGoogleIntegration (signed_in ''user-1'' 20)
        (table_after (upsertGoogleIntegration (signed_in ''user-1'' 10)
           (consent (Some ''A1'') (Some ''R1'')) []))))"
proof -
  have h1: "getUser (signed_in ''user-2'' 30) = Some ''user-2''"
    by (simp add: getUser_def signed_in_def)
  have h2: "db_failure (signed_in ''user-2'' 30) = None"
    by (simp add: signed_in_def)
  have h3: "getUser (signed_in ''user-1'' 20) = Some ''user-1''"
    by (simp add: getUser_def signed_in_def)
  have h4: "db_failure (signed_in ''user-1'' 20) = None"
    by (simp add: signed_in_def)
  have t1: "table_after (upsertGoogleIntegration (signed_in ''user-1'' 10)
              (consent (Some ''A1'') (Some ''R1'')) []) =
            [proposed (signed_in ''user-1'' 10) ''user-1'' (consent (Some ''A1'') (Some ''R1''))]"
    by (simp add: eval_defs)
  from disconnect_clears_the_record [OF h1 h2, of "[]"]
       disconnect_clears_the_record [OF h3 h4,
         of "[proposed (signed_in ''user-1'' 10) ''user-1'' (consent (Some ''A1'') (Some ''R1''))]"]
       h1 h2 h3 h4
  show ?thesis
    unfolding t1
    by (simp add: eval_defs)
qed

text \<open>
  C7. The specification has \<open>updated_at\<close> set on every mutation and never
  smaller than before, whatever the sequence of mutations. Every write stores the
  database's \<open>NOW()\<close>, the start of its transaction, and nothing compares it
  with the stamp already stored. A connect whose \<open>NOW()\<close> is 20 stamps the
  record 20; a disconnect whose transaction began at 10 and whose statement runs
  after it stamps the record 10.
\<close>

theorem stamp_goes_back_counterexample:
  "table_after
     (upsertGoogleIntegration
        \<lparr>session_user = Some ''user-1'', getUser_error = None, date_now = 20,
         db_now = 20, gen_random_uuid = ''row-1'', db_failure = None\<rparr>
        \<lparr>provider_access_token = Some ''A1'', provider_refresh_token = Some ''R1'',
         expires_in = Some 3600, data_scopes = [''openid''],
         data_provider_user_id = ''google-7''\<rparr>
        [])
   = [\<lparr>row_id = ''row-1'', user_id = ''user-1'', provider = ''google'',
       provider_user_id = Some ''google-7'', status = ''connected'',
       scopes = Some [''openid''], provider_access_token_encrypted = Some ''A1'',
       provider_refresh_token_encrypted = Some ''R1'',
       token_expires_at = Some 3600020, created_at = 20, updated_at = 20\<rparr>] \<and>
   table_after
     (disconnectGoogleIntegration
        \<lparr>session_user = Some ''user-1'', getUser_error = None, date_now = 25,
         db_now = 10, gen_random_uuid = ''row-2'', db_failure = None\<rparr>
        [\<lparr>row_id = ''row-1'', user_id = ''user-1'', provider = ''google'',
          provider_user_id = Some ''google-7'', status = ''connected'',
          scopes = Some [''openid''], provider_access_token_encrypted = Some ''A1'',
          provider_refresh_token_encrypted = Some ''R1'',
          token_expires_at = Some 3600020, created_at = 20, updated_at = 20\<rparr>])
   = [\<lparr>row_id = ''row-1'', user_id = ''user-1'', provider = ''google'',
       provider_user_id = None, status = ''disconnected'',
       scopes = None, provider_access_token_encrypted = None,
       provider_refresh_token_encrypted = None,
       token_expires_at = None, created_at = 20, updated_at = 10\<rparr>]"
  by (simp add: eval_defs)

text \<open>
  C7, as the code has it. \<open>updated_at\<close> is set on every mutation: the upsert
  writes \<open>NOW()\<close> and the trigger puts \<open>NOW()\<close> over whatever an
  \<open>UPDATE\<close> sends (the disconnect sends the application's clock). It does not
  go back when the readings of \<open>NOW()\<close> do not. Run the calls \<open>cs\<close>, then
  \<open>c\<close>, then \<open>cs'\<close>, with readings of \<open>NOW()\<close> that are in order
  and not earlier than the stamps of the starting table. Every record that \<open>c\<close>
  changes or adds carries \<open>c\<close>'s \<open>NOW()\<close>. Every record of the table
  after \<open>cs\<close> is still there, at the same place, after the rest of the calls,
  and its \<open>updated_at\<close> is not smaller.
\<close>

theorem updated_at_never_goes_back:
  assumes "clock_moves_on t (cs @ c # cs')"
  shows "(\<forall>i < length (perform c (run cs t)).
            (i < length (run cs t) \<and> perform c (run cs t) ! i = run cs t ! i) \<or>
            updated_at (perform c (run cs t) ! i) = db_now (fst c)) \<and>
         length (run cs t) \<le> length (run (cs @ c # cs') t) \<and>
         (\<forall>i < length (run cs t).
            same_record (run cs t ! i) (run (cs @ c # cs') t ! i) \<and>
            updated_at (run cs t ! i) \<le> updated_at (run (cs @ c # cs') t ! i))"
proof -
  have "clock_moves_on (run cs t) (c # cs')"
    by (rule clock_run [OF assms])
  from run_monotone [OF this] perform_stamps [of "run cs t" c]
  show ?thesis
    by (simp add: run_append)
qed


theorem updated_at_never_goes_back_witness:
  "clock_moves_on []
     ([(signed_in ''user-1'' 10, Connect (consent (Some ''A1'') (Some ''R1'')))] @
      (signed_in ''user-1'' 20, Disconnect) #
      [(signed_in ''user-1'' 30, Connect (consent (Some ''A3'') (Some ''R3'')))]) \<and>
   map updated_at
     (run [(signed_in ''user-1'' 10, Connect (consent (Some ''A1'') (Some ''R1'')))] []) = [10] \<and>
   map updated_at
     (perform (signed_in ''user-1'' 20, Disconnect)
        (run [(signed_in ''user-1'' 10, Connect (consent (Some ''A1'') (Some ''R1'')))] []))
     = [20] \<and>
   map updated_at
     (run ([(signed_in ''user-1'' 10, Connect (consent (Some ''A1'') (Some ''R1'')))] @
           (signed_in ''user-1'' 20, Disconnect) #
           [(signed_in ''user-1'' 30, Connect (consent (Some ''A3'') (Some ''R3'')))]) [])
     = [30] \<and>
   updated_at
     (run [(signed_in ''user-1'' 10, Connect (consent (Some ''A1'') (Some ''R1'')))] [] ! 0)
   \<le> updated_at
     (run ([(signed_in ''user-1'' 10, Connect (consent (Some ''A1'') (Some ''R1'')))] @
           (signed_in ''user-1'' 20, Disconnect) #
           [(signed_in ''user-1'' 30, Connect (consent (Some ''A3'') (Some ''R3'')))]) [] ! 0)"
proof -
  let ?cs = "[(signed_in ''user-1'' 10, Connect (consent (Some ''A1'') (Some ''R1'')))]"
  let ?c = "(signed_in ''user-1'' 20, Disconnect)"
  let ?cs' = "[(signed_in ''user-1'' 30, Connect (consent (Some ''A3'') (Some ''R3'')))]"
  have h: "clock_moves_on [] (?cs @ ?c # ?cs')"
    by (simp add: clock_moves_on_def signed_in_def)
  have one: "length (run ?cs []) = 1"
    by (simp add: eval_defs)
  from updated_at_never_goes_back [OF h] one
  have "updated_at (run ?cs [] ! 0) \<le> updated_at (run (?cs @ ?c # ?cs') [] ! 0)"
    by simp
  moreover have "map updated_at (run ?cs []) = [10]"
    by (simp add: eval_defs)
  moreover have "map updated_at (perform ?c (run ?cs [])) = [20]"
    by (simp add: eval_defs)
  moreover have "map updated_at (run (?cs @ ?c # ?cs') []) = [30]"
    by (simp add: eval_defs)
  ultimately show ?thesis
    using h by simp
qed

text \<open>
  C8. Every operation acts for the session's user only. Let the session be user
  \<open>a\<close>'s and \<open>b\<close> another user. The two actions leave every record of
  \<open>b\<close> as it was, and the status query leaves the table as it was. What the three
  return is the same on any two tables that hold the same records of \<open>a\<close>, so
  nothing of \<open>b\<close>'s is read, even when the page passes \<open>b\<close> as the user. The
  policies give the same at the database, whatever the application sends: a
  \<open>SELECT\<close> returns records of \<open>a\<close> only, an \<open>UPDATE\<close> that succeeds
  leaves \<open>b\<close>'s records as they were, the upsert function called with \<open>b\<close>'s
  id is refused, and a record of \<open>b\<close> fails the \<open>DELETE\<close> policy.
\<close>

theorem no_cross_user_access:
  assumes "session_user e = Some a" and "a \<noteq> b"
  shows "filter (\<lambda>r. user_id r = b) (table_after (upsertGoogleIntegration e d t)) =
           filter (\<lambda>r. user_id r = b) t \<and>
         filter (\<lambda>r. user_id r = b) (table_after (disconnectGoogleIntegration e t)) =
           filter (\<lambda>r. user_id r = b) t \<and>
         table_after (fetchIntegrationStatus e user t) = t \<and>
         (filter (\<lambda>r. user_id r = a) t = filter (\<lambda>r. user_id r = a) t' \<longrightarrow>
            returned (fetchIntegrationStatus e user t) =
              returned (fetchIntegrationStatus e user t') \<and>
            returned (upsertGoogleIntegration e d t) =
              returned (upsertGoogleIntegration e d t') \<and>
            returned (disconnectGoogleIntegration e t) =
              returned (disconnectGoogleIntegration e t')) \<and>
         (\<forall>r \<in> set (sql_select e w t). user_id r = a) \<and>
         (\<forall>t2. sql_update e s w t = Inr t2 \<longrightarrow>
            filter (\<lambda>r. user_id r = b) t2 = filter (\<lambda>r. user_id r = b) t) \<and>
         upsert_google_user_integration e b pu sc at rt x t = Inl rls_violation \<and>
         (user_id r = b \<longrightarrow> \<not> policy_delete_using (session_user e) r)"
proof -
  have frame: "table_after (fetchIntegrationStatus e user t) = t"
    by (simp add: fetchIntegrationStatus_def split: option.splits sum.splits)
  have sel: "\<forall>r \<in> set (sql_select e w t). user_id r = a"
    by (simp add: sql_select_rows [OF assms(1)])
  have upd: "\<forall>t2. sql_update e s w t = Inr t2 \<longrightarrow>
            filter (\<lambda>r. user_id r = b) t2 = filter (\<lambda>r. user_id r = b) t"
    using sql_update_others [OF assms] by blast
  have rpc: "upsert_google_user_integration e b pu sc at rt x t = Inl rls_violation"
    using assms by (intro upsert_sql_foreign) simp
  have del: "user_id r = b \<longrightarrow> \<not> policy_delete_using (session_user e) r"
    using assms by (auto simp add: policy_delete_using_def)
  from upsert_others [OF assms] disconnect_others [OF assms] frame sel upd rpc del
    fetch_returned_own_rows [OF assms(1)] upsert_returned_own_rows [OF assms(1)]
    disconnect_returned_own_rows
  show ?thesis by blast
qed


theorem no_cross_user_access_witness:
  "session_user (signed_in ''alice'' 50) = Some ''alice'' \<and> ''alice'' \<noteq> ''bob'' \<and>
   filter (\<lambda>r. user_id r = ''bob'')
     (table_after (upsertGoogleIntegration (signed_in ''alice'' 50)
        (consent (Some ''A2'') (Some ''R2''))
        [proposed (signed_in ''bob'' 5) ''bob'' (consent (Some ''B1'') (Some ''S1'')),
         proposed (signed_in ''alice'' 6) ''alice'' (consent (Some ''A1'') (Some ''R1''))]))
     = [proposed (signed_in ''bob'' 5) ''bob'' (consent (Some ''B1'') (Some ''S1''))] \<and>
   filter (\<lambda>r. user_id r = ''bob'')
     (table_after (disconnectGoogleIntegration (signed_in ''alice'' 50)
        [proposed (signed_in ''bob'' 5) ''bob'' (consent (Some ''B1'') (Some ''S1'')),
         proposed (signed_in ''alice'' 6) ''alice'' (consent (Some ''A1'') (Some ''R1''))]))
     = [proposed (signed_in ''bob'' 5) ''bob'' (consent (Some ''B1'') (Some ''S1''))] \<and>
   returned (fetchIntegrationStatus (signed_in ''alice'' 50) (Some ''bob'')
        [proposed (signed_in ''bob'' 5) ''bob'' (consent (Some ''B1'') (Some ''S1'')),
         proposed (signed_in ''alice'' 6) ''alice'' (consent (Some ''A1'') (Some ''R1''))])
     = returned (fetchIntegrationStatus (signed_in ''alice'' 50) (Some ''bob'')
        [proposed (signed_in ''alice'' 6) ''alice'' (consent (Some ''A1'') (Some ''R1''))]) \<and>
   list_all (\<lambda>r. user_id r = ''alice'')
     (sql_select (signed_in ''alice'' 50) (\<lambda>r. True)
        [proposed (signed_in ''bob'' 5) ''bob'' (consent (Some ''B1'') (Some ''S1'')),
         proposed (signed_in ''alice'' 6) ''alice'' (consent (Some ''A1'') (Some ''R1''))]) \<and>
   upsert_google_user_integration (signed_in ''alice'' 50) ''bob'' (Some ''google-9'')
        (Some [''openid'']) (Some ''X'') (Some ''Y'') None
        [proposed (signed_in ''bob'' 5) ''bob'' (consent (Some ''B1'') (Some ''S1'')),
         proposed (signed_in ''alice'' 6) ''alice'' (consent (Some ''A1'') (Some ''R1''))]
     = Inl rls_violation"
proof -
  let ?bob = "proposed (signed_in ''bob'' 5) ''bob'' (consent (Some ''B1'') (Some ''S1''))"
  let ?alice = "proposed (signed_in ''alice'' 6) ''alice'' (consent (Some ''A1'') (Some ''R1''))"
  have h1: "session_user (signed_in ''alice'' 50) = Some ''alice''"
    by (simp add: signed_in_def)
  have h2: "''alice'' \<noteq> ''bob''" by simp
  have bob: "user_id ?bob = ''bob''" and alice: "user_id ?alice = ''alice''"
    by (simp_all add: proposed_key)
  have agree: "filter (\<lambda>r. user_id r = ''alice'') [?bob, ?alice] =
               filter (\<lambda>r. user_id r = ''alice'') [?alice]"
    by (simp add: bob alice)
  have theirs: "filter (\<lambda>r. user_id r = ''bob'') [?bob, ?alice] = [?bob]"
    by (simp add: bob alice)
  from no_cross_user_access [OF h1 h2,
         of "consent (Some ''A2'') (Some ''R2'')" "[?bob, ?alice]" "Some ''bob''" "[?alice]"
            "\<lambda>r. True" id "Some ''google-9''" "Some [''openid'']" "Some ''X''" "Some ''Y''"
            None ?bob]
       h1 agree theirs
  show ?thesis
    by (simp add: list_all_iff)
qed

text \<open>
  C9. The status query only reads. Whatever the user and the table,
  \<open>fetchIntegrationStatus\<close> leaves the table as it was and sends at most one
  request, a \<open>SELECT\<close> on \<open>user_integrations\<close>: no refresh and no call to the
  provider. For a signed-in user whose request reaches the database it sets
  \<open>{provider, connected, scopes, lastChecked}\<close> from the user's record: connected
  when the stored status is \<open>connected\<close>, the stored scopes, and the time of the
  query; with no record, not connected and no scopes.
\<close>

theorem status_query_is_pure_read:
  "table_after (fetchIntegrationStatus e user t) = t \<and>
   requests (fetchIntegrationStatus e user t) =
     (if user = None then [] else [Select_user_integrations]) \<and>
   (session_user e = Some u \<and> db_failure e = None \<and> unique_user_provider t \<longrightarrow>
      returned (fetchIntegrationStatus e (Some u) t) =
        (Some (case find (eq_user_google u) t of
                 None \<Rightarrow>
                   \<lparr>status_provider = ''google'', connected = False,
                    status_scopes = None, lastChecked = Some (date_now e)\<rparr>
               | Some r \<Rightarrow>
                   \<lparr>status_provider = ''google'', connected = (status r = ''connected''),
                    status_scopes = scopes r, lastChecked = Some (date_now e)\<rparr>),
         None))"
proof -
  have frame: "table_after (fetchIntegrationStatus e user t) = t"
    by (simp add: fetchIntegrationStatus_def split: option.splits sum.splits)
  have reqs: "requests (fetchIntegrationStatus e user t) =
           (if user = None then [] else [Select_user_integrations])"
    by (simp add: fetchIntegrationStatus_def split: option.splits sum.splits)
  have ret: "returned (fetchIntegrationStatus e (Some u) t) =
           (Some (case find (eq_user_google u) t of
                    None \<Rightarrow>
                      \<lparr>status_provider = ''google'', connected = False,
                       status_scopes = None, lastChecked = Some (date_now e)\<rparr>
                  | Some r \<Rightarrow>
                      \<lparr>status_provider = ''google'', connected = (status r = ''connected''),
                       status_scopes = scopes r, lastChecked = Some (date_now e)\<rparr>),
            None)"
    if own: "session_user e = Some u" and ok: "db_failure e = None"
      and uniq: "unique_user_provider t"
  proof -
    have sel: "sql_select e (eq_user_google u) t = filter (eq_user_google u) t"
      using sql_select_own [OF own, of "\<lambda>_. True" t] by simp
    have "length (filter (eq_user_google u) t) \<le> 1"
      by (rule unique_at_most_one [OF uniq])
    then consider "filter (eq_user_google u) t = []"
      | r where "filter (eq_user_google u) t = [r]"
      by (cases "filter (eq_user_google u) t") auto
    then show ?thesis
    proof cases
      case 1
      then show ?thesis
        using ok
        by (simp add: fetchIntegrationStatus_def request_db_def sel maybeSingle_def find_filter)
    next
      case 2
      then show ?thesis
        using ok
        by (simp add: fetchIntegrationStatus_def request_db_def sel maybeSingle_def find_filter)
    qed
  qed
  from frame reqs ret show ?thesis by blast
qed

theorem status_query_is_pure_read_witness:
  "session_user (signed_in ''user-1'' 50) = Some ''user-1'' \<and>
   db_failure (signed_in ''user-1'' 50) = None \<and>
   unique_user_provider
     [proposed (signed_in ''user-1'' 10) ''user-1'' (consent (Some ''A1'') (Some ''R1''))] \<and>
   table_after (fetchIntegrationStatus (signed_in ''user-1'' 50) (Some ''user-1'')
     [proposed (signed_in ''user-1'' 10) ''user-1'' (consent (Some ''A1'') (Some ''R1''))]) =
     [proposed (signed_in ''user-1'' 10) ''user-1'' (consent (Some ''A1'') (Some ''R1''))] \<and>
   requests (fetchIntegrationStatus (signed_in ''user-1'' 50) (Some ''user-1'')
     [proposed (signed_in ''user-1'' 10) ''user-1'' (consent (Some ''A1'') (Some ''R1''))]) =
     [Select_user_integrations] \<and>
   returned (fetchIntegrationStatus (signed_in ''user-1'' 50) (Some ''user-1'')
     [proposed (signed_in ''user-1'' 10) ''user-1'' (consent (Some ''A1'') (Some ''R1''))]) =
     (Some \<lparr>status_provider = ''google'', connected = True,
            status_scopes = Some [''openid'', ''email''], lastChecked = Some 50\<rparr>, None)"
proof -
  have h1: "session_user (signed_in ''user-1'' 50) = Some ''user-1''"
    by (simp add: signed_in_def)
  have h2: "db_failure (signed_in ''user-1'' 50) = None"
    by (simp add: signed_in_def)
  have h3: "unique_user_provider
     [proposed (signed_in ''user-1'' 10) ''user-1'' (consent (Some ''A1'') (Some ''R1''))]"
    by (simp add: unique_user_provider_def)
  from status_query_is_pure_read
         [of "signed_in ''user-1'' 50" "Some ''user-1''"
             "[proposed (signed_in ''user-1'' 10) ''user-1'' (consent (Some ''A1'') (Some ''R1''))]"
             "''user-1''"] h1 h2 h3
  show ?thesis
    by (simp add: eval_defs)
qed

text \<open>
  C10. With no authenticated user (\<open>userError || !user\<close>), both actions return the
  error \<open>User not authenticated\<close> and leave the table as it was.
\<close>

theorem unauthenticated_no_mutation:
  assumes "getUser_error e \<noteq> None \<or> session_user e = None"
  shows "returned (upsertGoogleIntegration e d t) = Error ''User not authenticated'' \<and>
         table_after (upsertGoogleIntegration e d t) = t \<and>
         returned (disconnectGoogleIntegration e t) = Error ''User not authenticated'' \<and>
         table_after (disconnectGoogleIntegration e t) = t"
proof -
  from assms have "getUser e = None"
    by (auto simp add: getUser_def split: option.splits)
  then show ?thesis
    by (simp add: upsertGoogleIntegration_def disconnectGoogleIntegration_def)
qed

theorem unauthenticated_no_mutation_witness:
  "returned (upsertGoogleIntegration (signed_out 5) (consent (Some ''A'') (Some ''R''))
      [proposed (signed_in ''user-1'' 1) ''user-1'' (consent (Some ''A0'') (Some ''R0''))])
     = Error ''User not authenticated'' \<and>
   table_after (upsertGoogleIntegration (signed_out 5) (consent (Some ''A'') (Some ''R''))
      [proposed (signed_in ''user-1'' 1) ''user-1'' (consent (Some ''A0'') (Some ''R0''))])
     = [proposed (signed_in ''user-1'' 1) ''user-1'' (consent (Some ''A0'') (Some ''R0''))] \<and>
   returned (disconnectGoogleIntegration (signed_out 5)
      [proposed (signed_in ''user-1'' 1) ''user-1'' (consent (Some ''A0'') (Some ''R0''))])
     = Error ''User not authenticated'' \<and>
   table_after (disconnectGoogleIntegration (signed_out 5)
      [proposed (signed_in ''user-1'' 1) ''user-1'' (consent (Some ''A0'') (Some ''R0''))])
     = [proposed (signed_in ''user-1'' 1) ''user-1'' (consent (Some ''A0'') (Some ''R0''))]"
  using unauthenticated_no_mutation
    [of "signed_out 5" "consent (Some ''A'') (Some ''R'')"
        "[proposed (signed_in ''user-1'' 1) ''user-1'' (consent (Some ''A0'') (Some ''R0''))]"]
  by (simp add: signed_out_def)

end
